theory Spec2Isabelle
  imports Complex_Main
begin

section \<open>Arrays and the numpy operations the notebook uses\<close>

text \<open>
  The notebook \<^verbatim>\<open>03_echo_state_networks.ipynb\<close> computes with numpy arrays of
  64-bit floats. The embedding idealises a float as a \<^typ>\<open>real\<close>: every statement
  below is about exact arithmetic, rounding and overflow are outside the model, but for
  the two places named in the section on the Mackey-Glass generator, where the outcome on
  ordinary inputs depends on them. In the normalisation of the reservoir matrices a
  division of an array by a zero norm (numpy returns \<^verbatim>\<open>inf\<close> or \<^verbatim>\<open>nan\<close> with a
  warning) is the outcome \<open>NonFinite\<close>.

  A one-dimensional array is a list, a two-dimensional array carries its shape, as
  \<^verbatim>\<open>ndarray.shape\<close> does, so that an array with no row still has a column count.
\<close>

datatype error =
  IndexError | ValueError | LinAlgError | ZeroDivisionError | OverflowError | NonFinite

type_synonym vec = "real list"

record mat =
  nrows :: nat
  ncols :: nat
  rows :: "real list list"

definition wf_mat :: "mat \<Rightarrow> bool" where
  "wf_mat M \<longleftrightarrow> length (rows M) = nrows M \<and> list_all (\<lambda>r. length r = ncols M) (rows M)"

definition ebind :: "error + 'a \<Rightarrow> ('a \<Rightarrow> error + 'b) \<Rightarrow> error + 'b" where
  "ebind m f = (case m of Inl e \<Rightarrow> Inl e | Inr x \<Rightarrow> f x)"

text \<open>\<^verbatim>\<open>np.zeros([r, c])\<close> and \<^verbatim>\<open>np.eye(k)\<close>.\<close>

definition zeros :: "nat \<Rightarrow> nat \<Rightarrow> mat" where
  "zeros r c = \<lparr>nrows = r, ncols = c, rows = replicate r (replicate c 0)\<rparr>"

definition eye :: "nat \<Rightarrow> mat" where
  "eye k = \<lparr>nrows = k, ncols = k,
     rows = map (\<lambda>i. map (\<lambda>j. if i = j then 1 else 0) [0..<k]) [0..<k]\<rparr>"

text \<open>\<^verbatim>\<open>M[i,:]\<close> for a non-negative index, and the assignment \<^verbatim>\<open>M[i,:] = v\<close>,
  which stretches a one-element \<open>v\<close> along the row.\<close>

definition row_at :: "mat \<Rightarrow> nat \<Rightarrow> error + vec" where
  "row_at M i = (if i < nrows M then Inr (rows M ! i) else Inl IndexError)"

definition set_row :: "mat \<Rightarrow> nat \<Rightarrow> vec \<Rightarrow> error + mat" where
  "set_row M i v =
     (if \<not> i < nrows M then Inl IndexError
      else if length v = ncols M then Inr (M\<lparr>rows := (rows M)[i := v]\<rparr>)
      else if length v = 1 then Inr (M\<lparr>rows := (rows M)[i := replicate (ncols M) (v ! 0)]\<rparr>)
      else Inl ValueError)"

text \<open>Broadcasting of one axis: equal lengths, or one of them is 1.\<close>

definition bcast :: "nat \<Rightarrow> nat \<Rightarrow> nat option" where
  "bcast m n = (if m = n then Some m else if m = 1 then Some n else if n = 1 then Some m else None)"

definition pick :: "'a list \<Rightarrow> nat \<Rightarrow> 'a" where
  "pick u i = (if length u = 1 then u ! 0 else u ! i)"

definition vzip :: "(real \<Rightarrow> real \<Rightarrow> real) \<Rightarrow> vec \<Rightarrow> vec \<Rightarrow> error + vec" where
  "vzip f u v =
     (case bcast (length u) (length v) of
        None \<Rightarrow> Inl ValueError
      | Some n \<Rightarrow> Inr (map (\<lambda>i. f (pick u i) (pick v i)) [0..<n]))"

definition vadd :: "vec \<Rightarrow> vec \<Rightarrow> error + vec" where
  "vadd = vzip (+)"

definition vsmul :: "real \<Rightarrow> vec \<Rightarrow> vec" where
  "vsmul c v = map (\<lambda>x. c * x) v"

definition vtanh :: "vec \<Rightarrow> vec" where
  "vtanh v = map tanh v"

definition mzip :: "(real \<Rightarrow> real \<Rightarrow> real) \<Rightarrow> mat \<Rightarrow> mat \<Rightarrow> error + mat" where
  "mzip f A B =
     (case bcast (nrows A) (nrows B) of
        None \<Rightarrow> Inl ValueError
      | Some r \<Rightarrow>
          (case bcast (ncols A) (ncols B) of
             None \<Rightarrow> Inl ValueError
           | Some c \<Rightarrow>
               Inr \<lparr>nrows = r, ncols = c,
                    rows = map (\<lambda>i. map (\<lambda>j. f (pick (pick (rows A) i) j) (pick (pick (rows B) i) j))
                                 [0..<c]) [0..<r]\<rparr>))"

definition madd :: "mat \<Rightarrow> mat \<Rightarrow> error + mat" where
  "madd = mzip (+)"

definition msub :: "mat \<Rightarrow> mat \<Rightarrow> error + mat" where
  "msub = mzip (-)"

definition msmul :: "real \<Rightarrow> mat \<Rightarrow> mat" where
  "msmul c M = M\<lparr>rows := map (map (\<lambda>x. c * x)) (rows M)\<rparr>"

text \<open>The products written \<^verbatim>\<open>@\<close> and \<^verbatim>\<open>np.dot\<close>: matrix by vector, vector by
  matrix, matrix by matrix; and \<^verbatim>\<open>M.T\<close>. A shape that does not fit raises
  \<^verbatim>\<open>ValueError\<close>.\<close>

definition dot :: "vec \<Rightarrow> vec \<Rightarrow> real" where
  "dot u v = sum_list (map2 (*) u v)"

definition col :: "real list list \<Rightarrow> nat \<Rightarrow> vec" where
  "col rs j = map (\<lambda>r. r ! j) rs"

definition vm :: "nat \<Rightarrow> vec \<Rightarrow> real list list \<Rightarrow> vec" where
  "vm k v rs = map (\<lambda>j. dot v (col rs j)) [0..<k]"

definition matvec :: "mat \<Rightarrow> vec \<Rightarrow> error + vec" where
  "matvec M v = (if ncols M = length v then Inr (map (\<lambda>r. dot r v) (rows M)) else Inl ValueError)"

definition vecmat :: "vec \<Rightarrow> mat \<Rightarrow> error + vec" where
  "vecmat v M = (if length v = nrows M then Inr (vm (ncols M) v (rows M)) else Inl ValueError)"

definition matmul :: "mat \<Rightarrow> mat \<Rightarrow> error + mat" where
  "matmul A B =
     (if ncols A = nrows B
      then Inr \<lparr>nrows = nrows A, ncols = ncols B, rows = map (\<lambda>r. vm (ncols B) r (rows B)) (rows A)\<rparr>
      else Inl ValueError)"

definition transpose_mat :: "mat \<Rightarrow> mat" where
  "transpose_mat M = \<lparr>nrows = ncols M, ncols = nrows M, rows = map (col (rows M)) [0..<ncols M]\<rparr>"

section \<open>State collection\<close>

text \<open>
  \<^verbatim>\<open>esn_collect(Z, A, C, zeta, alpha)\<close>. \<open>collect_first\<close> is the right-hand side of the
  assignment to \<^verbatim>\<open>X[0,:]\<close>, which reads \<^verbatim>\<open>Z[1,:]\<close>; \<open>collect_step\<close> is the
  right-hand side of the assignment in the loop body; \<open>collect_loop\<close> is the loop over
  \<^verbatim>\<open>range(1,T)\<close>, whose state is the array \<open>X\<close>.
\<close>

definition collect_first :: "mat \<Rightarrow> mat \<Rightarrow> vec \<Rightarrow> real \<Rightarrow> error + vec" where
  "collect_first Z C zeta alpha =
     ebind (row_at Z 1) (\<lambda>z.
     ebind (matvec C z) (\<lambda>cz.
     ebind (vadd cz zeta) (\<lambda>s.
     Inr (vsmul (1 - alpha) (vtanh s)))))"

definition collect_step :: "mat \<Rightarrow> mat \<Rightarrow> vec \<Rightarrow> real \<Rightarrow> vec \<Rightarrow> vec \<Rightarrow> error + vec" where
  "collect_step A C zeta alpha x z =
     ebind (matvec A x) (\<lambda>ax.
     ebind (matvec C z) (\<lambda>cz.
     ebind (vadd ax cz) (\<lambda>s1.
     ebind (vadd s1 zeta) (\<lambda>s.
     vadd (vsmul alpha x) (vsmul (1 - alpha) (vtanh s))))))"

fun collect_loop :: "mat \<Rightarrow> mat \<Rightarrow> mat \<Rightarrow> vec \<Rightarrow> real \<Rightarrow> nat list \<Rightarrow> mat \<Rightarrow> error + mat" where
  "collect_loop Z A C zeta alpha [] X = Inr X"
| "collect_loop Z A C zeta alpha (t # ts) X =
     ebind (row_at X (t - 1)) (\<lambda>x.
     ebind (row_at Z t) (\<lambda>z.
     ebind (collect_step A C zeta alpha x z) (\<lambda>v.
     ebind (set_row X t v) (\<lambda>X'.
     collect_loop Z A C zeta alpha ts X'))))"

definition esn_collect :: "mat \<Rightarrow> mat \<Rightarrow> mat \<Rightarrow> vec \<Rightarrow> real \<Rightarrow> error + mat" where
  "esn_collect Z A C zeta alpha =
     (let T = nrows Z; Dx = nrows A; X = zeros T Dx in
      ebind (collect_first Z C zeta alpha) (\<lambda>v.
      ebind (set_row X 0 v) (\<lambda>X0.
      collect_loop Z A C zeta alpha [1..<T] X0)))"

text \<open>The values the two assignments store when every shape fits: \<open>first_val\<close> for
  the bootstrap row as a function of the input row \<open>z\<close> it is given, \<open>step_val\<close> for a
  row of the loop.\<close>

definition first_val :: "mat \<Rightarrow> vec \<Rightarrow> real \<Rightarrow> vec \<Rightarrow> vec" where
  "first_val C zeta alpha z =
     map (\<lambda>i. (1 - alpha) * tanh (dot (rows C ! i) z + zeta ! i)) [0..<length zeta]"

definition step_val :: "mat \<Rightarrow> mat \<Rightarrow> vec \<Rightarrow> real \<Rightarrow> vec \<Rightarrow> vec \<Rightarrow> vec" where
  "step_val A C zeta alpha x z =
     map (\<lambda>i. alpha * x ! i + (1 - alpha) * tanh (dot (rows A ! i) x + dot (rows C ! i) z + zeta ! i))
       [0..<length x]"

text \<open>An \<open>r\<close> by \<open>c\<close> array.\<close>

definition is_mat :: "nat \<Rightarrow> nat \<Rightarrow> mat \<Rightarrow> bool" where
  "is_mat r c M \<longleftrightarrow> wf_mat M \<and> nrows M = r \<and> ncols M = c"

text \<open>The invariant of the boundedness property: every entry lies in \<open>[-1, 1]\<close>.\<close>

definition unit_box :: "vec \<Rightarrow> bool" where
  "unit_box v \<longleftrightarrow> list_all (\<lambda>x. - 1 \<le> x \<and> x \<le> 1) v"

definition box_mat :: "mat \<Rightarrow> bool" where
  "box_mat X \<longleftrightarrow> length (rows X) = nrows X \<and> list_all unit_box (rows X)"

section \<open>Autonomous iteration\<close>

text \<open>
  \<^verbatim>\<open>esn_auto(X0, h, A, C, zeta, alpha, W)\<close>: the matrix \<^verbatim>\<open>R = A + C @ W.T\<close> is
  computed before the loop; \<open>auto_step\<close> is the right-hand side of the assignment to
  \<^verbatim>\<open>Xh[t,:]\<close>, \<open>auto_loop\<close> the loop over \<^verbatim>\<open>range(1,h)\<close> on the two arrays
  \<open>Xh\<close> and \<open>Yh\<close>. \<open>auto_val\<close> is the value \<open>auto_step\<close> stores when every shape fits.
\<close>

definition auto_step :: "mat \<Rightarrow> vec \<Rightarrow> real \<Rightarrow> vec \<Rightarrow> error + vec" where
  "auto_step R zeta alpha x =
     ebind (matvec R x) (\<lambda>rx.
     ebind (vadd rx zeta) (\<lambda>s.
     vadd (vsmul alpha x) (vsmul (1 - alpha) (vtanh s))))"

fun auto_loop :: "mat \<Rightarrow> vec \<Rightarrow> real \<Rightarrow> mat \<Rightarrow> nat list \<Rightarrow> mat \<times> mat \<Rightarrow> error + mat \<times> mat" where
  "auto_loop R zeta alpha W [] (Xh, Yh) = Inr (Xh, Yh)"
| "auto_loop R zeta alpha W (t # ts) (Xh, Yh) =
     ebind (row_at Xh (t - 1)) (\<lambda>x.
     ebind (auto_step R zeta alpha x) (\<lambda>v.
     ebind (set_row Xh t v) (\<lambda>Xh'.
     ebind (row_at Xh' t) (\<lambda>xt.
     ebind (vecmat xt W) (\<lambda>y.
     ebind (set_row Yh t y) (\<lambda>Yh'.
     auto_loop R zeta alpha W ts (Xh', Yh')))))))"

definition esn_auto :: "vec \<Rightarrow> nat \<Rightarrow> mat \<Rightarrow> mat \<Rightarrow> vec \<Rightarrow> real \<Rightarrow> mat \<Rightarrow> error + mat \<times> mat" where
  "esn_auto X0 h A C zeta alpha W =
     (let Dx = nrows A; Dy = ncols W in
      ebind (matmul C (transpose_mat W)) (\<lambda>CW.
      ebind (madd A CW) (\<lambda>R.
      let Xh = zeros h Dx; Yh = zeros h Dy in
      ebind (set_row Xh 0 X0) (\<lambda>Xh0.
      ebind (vecmat X0 W) (\<lambda>y0.
      ebind (set_row Yh 0 y0) (\<lambda>Yh0.
      auto_loop R zeta alpha W [1..<h] (Xh0, Yh0)))))))"

definition auto_val :: "mat \<Rightarrow> vec \<Rightarrow> real \<Rightarrow> vec \<Rightarrow> vec" where
  "auto_val R zeta alpha x =
     map (\<lambda>i. alpha * x ! i + (1 - alpha) * tanh (dot (rows R ! i) x + zeta ! i)) [0..<length x]"

section \<open>The Mackey-Glass sequence generator\<close>

text \<open>
  \<^verbatim>\<open>mackey_glass(beta, gamma, n, tau, a, delta_t, num_steps)\<close>. The parameters are
  Python floats (\<open>num_steps\<close> an integer); each is modelled by the real number it
  denotes. The arithmetic on finite values is exact, as in the rest of the embedding. At two
  places the function is not continuous in its arguments, so that float arithmetic and
  exact arithmetic part on ordinary inputs, and there the model follows IEEE 754 binary64.

  The first is the arithmetic on the entries of the array. numpy's scalar operations do
  not raise on a division by zero or on a power without a real value: they store
  \<^verbatim>\<open>inf\<close>, \<^verbatim>\<open>-inf\<close> or \<^verbatim>\<open>nan\<close> and go on. An entry is therefore an \<open>fval\<close>,
  and \<open>fneg\<close>, \<open>fadd\<close>, \<open>fsub\<close>, \<open>fmul\<close>, \<open>fdiv\<close> and \<open>fpow\<close> are the IEEE
  operations \<^verbatim>\<open>-\<close>, \<^verbatim>\<open>+\<close>, \<^verbatim>\<open>-\<close>, \<^verbatim>\<open>*\<close>, \<^verbatim>\<open>/\<close> and \<^verbatim>\<open>**\<close> (C's \<^verbatim>\<open>pow\<close>, the exponent a
  finite float) on such values. Finite results are exact, and a zero has no sign: it
  counts as \<^verbatim>\<open>+0.0\<close>.
\<close>

datatype fval = Fin real | PInf | MInf | NaN

definition inf_of :: "bool \<Rightarrow> fval" where
  "inf_of positive = (if positive then PInf else MInf)"

fun fneg :: "fval \<Rightarrow> fval" where
  "fneg (Fin a) = Fin (- a)"
| "fneg PInf = MInf"
| "fneg MInf = PInf"
| "fneg NaN = NaN"

fun fadd :: "fval \<Rightarrow> fval \<Rightarrow> fval" where
  "fadd (Fin a) (Fin b) = Fin (a + b)"
| "fadd NaN y = NaN"
| "fadd x NaN = NaN"
| "fadd PInf MInf = NaN"
| "fadd MInf PInf = NaN"
| "fadd (Fin a) y = y"
| "fadd x y = x"

definition fsub :: "fval \<Rightarrow> fval \<Rightarrow> fval" where
  "fsub x y = fadd x (fneg y)"

fun fmul :: "fval \<Rightarrow> fval \<Rightarrow> fval" where
  "fmul (Fin a) (Fin b) = Fin (a * b)"
| "fmul NaN y = NaN"
| "fmul x NaN = NaN"
| "fmul (Fin a) y = (if a = 0 then NaN else inf_of ((0 < a) = (y = PInf)))"
| "fmul x (Fin b) = (if b = 0 then NaN else inf_of ((0 < b) = (x = PInf)))"
| "fmul x y = inf_of ((x = PInf) = (y = PInf))"

fun fdiv :: "fval \<Rightarrow> fval \<Rightarrow> fval" where
  "fdiv (Fin a) (Fin b) =
     (if b \<noteq> 0 then Fin (a / b) else if a = 0 then NaN else inf_of (0 < a))"
| "fdiv NaN y = NaN"
| "fdiv x NaN = NaN"
| "fdiv (Fin a) y = Fin 0"
| "fdiv x (Fin b) = inf_of ((0 \<le> b) = (x = PInf))"
| "fdiv x y = NaN"

definition is_int :: "real \<Rightarrow> bool" where
  "is_int r \<longleftrightarrow> r = of_int \<lfloor>r\<rfloor>"

fun fpow :: "fval \<Rightarrow> real \<Rightarrow> fval" where
  "fpow (Fin v) n =
     (if n = 0 then Fin 1
      else if 0 < v then Fin (v powr n)
      else if v = 0 then (if 0 < n then Fin 0 else PInf)
      else if is_int n then Fin (v powi \<lfloor>n\<rfloor>)
      else NaN)"
| "fpow PInf n = (if n = 0 then Fin 1 else if 0 < n then PInf else Fin 0)"
| "fpow MInf n =
     (if n = 0 then Fin 1 else if n < 0 then Fin 0
      else if is_int n \<and> odd \<lfloor>n\<rfloor> then MInf else PInf)"
| "fpow NaN n = (if n = 0 then Fin 1 else NaN)"

text \<open>
  The second is \<^verbatim>\<open>int(tau / delta_t)\<close>. The quotient of two Python floats is the exact
  quotient rounded to the nearest binary64 number, ties to the even significand: \<open>fl64\<close>,
  with the exponent \<open>e\<close> of the binade of \<open>r\<close> (not below that of the subnormal numbers)
  and the spacing \<open>2 powi (e - 52)\<close> of the floats there. A zero divisor raises
  \<^verbatim>\<open>ZeroDivisionError\<close>; a quotient that rounds to \<open>2 ^ 1024\<close> or beyond is \<^verbatim>\<open>inf\<close>, on
  which \<^verbatim>\<open>int\<close> raises \<^verbatim>\<open>OverflowError\<close>. \<open>py_int\<close> is \<^verbatim>\<open>int\<close> on a finite float:
  truncation towards zero.
\<close>

definition round_half_even :: "real \<Rightarrow> int" where
  "round_half_even r =
     (let f = \<lfloor>r\<rfloor> in
      if r - of_int f < 1 / 2 then f
      else if 1 / 2 < r - of_int f then f + 1
      else if even f then f else f + 1)"

definition fl64 :: "real \<Rightarrow> real" where
  "fl64 r =
     (if r = 0 then 0
      else let e = max \<lfloor>log 2 \<bar>r\<bar>\<rfloor> (- 1022)
           in of_int (round_half_even (r / 2 powi (e - 52))) * 2 powi (e - 52))"

definition py_int :: "real \<Rightarrow> int" where
  "py_int r = (if 0 \<le> r then \<lfloor>r\<rfloor> else \<lceil>r\<rceil>)"

definition delay_steps :: "real \<Rightarrow> real \<Rightarrow> error + int" where
  "delay_steps tau delta_t =
     (if delta_t = 0 then Inl ZeroDivisionError
      else if 2 ^ 1024 \<le> \<bar>fl64 (tau / delta_t)\<bar> then Inl OverflowError
      else Inr (py_int (fl64 (tau / delta_t))))"

text \<open>
  The array \<open>x\<close> starts as zeros; \<open>mg_loop\<close> is the loop over \<^verbatim>\<open>range(1, num_steps)\<close>,
  \<open>delay_index\<close> the index \<^verbatim>\<open>max(t - int(tau / delta_t), 0)\<close> and \<open>mg_rhs\<close> the
  right-hand side of the assignment to \<^verbatim>\<open>x[t]\<close>.
\<close>

definition vec_at :: "'a list \<Rightarrow> nat \<Rightarrow> error + 'a" where
  "vec_at x i = (if i < length x then Inr (x ! i) else Inl IndexError)"

definition vec_set :: "'a list \<Rightarrow> nat \<Rightarrow> 'a \<Rightarrow> error + 'a list" where
  "vec_set x i v = (if i < length x then Inr (x[i := v]) else Inl IndexError)"

definition delay_index :: "int \<Rightarrow> nat \<Rightarrow> nat" where
  "delay_index k t = nat (max (int t - k) 0)"

definition mg_rhs :: "real \<Rightarrow> real \<Rightarrow> real \<Rightarrow> real \<Rightarrow> fval \<Rightarrow> fval \<Rightarrow> fval" where
  "mg_rhs beta gamma n delta_t xd xp =
     fadd xp (fmul (Fin delta_t)
       (fsub (fdiv (fmul (Fin beta) xd) (fadd (Fin 1) (fpow xd n))) (fmul (Fin gamma) xp)))"

fun mg_loop :: "real \<Rightarrow> real \<Rightarrow> real \<Rightarrow> real \<Rightarrow> real \<Rightarrow> nat list \<Rightarrow> fval list \<Rightarrow> error + fval list" where
  "mg_loop beta gamma n tau delta_t [] x = Inr x"
| "mg_loop beta gamma n tau delta_t (t # ts) x =
     ebind (delay_steps tau delta_t) (\<lambda>k.
     ebind (vec_at x (t - 1)) (\<lambda>xp.
     ebind (vec_at x (delay_index k t)) (\<lambda>xd.
     ebind (vec_set x t (mg_rhs beta gamma n delta_t xd xp)) (\<lambda>x'.
     mg_loop beta gamma n tau delta_t ts x'))))"

definition mackey_glass :: "real \<Rightarrow> real \<Rightarrow> real \<Rightarrow> real \<Rightarrow> real \<Rightarrow> real \<Rightarrow> nat \<Rightarrow> error + fval list" where
  "mackey_glass beta gamma n tau a delta_t num_steps =
     ebind (vec_set (replicate num_steps (Fin 0)) 0 (Fin (1 / 2))) (\<lambda>x0.
     ebind (mg_loop beta gamma n tau delta_t [1..<num_steps] x0) (\<lambda>x.
     Inr (map (fmul (Fin a)) x)))"

section \<open>The ridge readout\<close>

text \<open>
  \<^verbatim>\<open>np.linalg.solve(a, b)\<close> for two-dimensional \<open>a\<close> and \<open>b\<close>. The solver belongs
  to numpy, not to the notebook. It raises \<^verbatim>\<open>LinAlgError\<close> when \<open>a\<close> is not square and
  \<^verbatim>\<open>ValueError\<close> when the row counts differ. When \<open>a\<close> is not singular the model returns
  the matrix \<open>x\<close> with \<open>a @ x = b\<close>, computed in exact arithmetic by Gaussian elimination
  on the equations \<open>(row of a, row of b)\<close>: \<open>find_pivot\<close> takes the first equation whose
  leading coefficient is not zero, \<open>eliminate\<close> removes the leading unknown from another
  equation, \<open>gauss n k\<close> solves for \<open>n\<close> unknowns that are rows of length \<open>k\<close>. (LAPACK
  takes the leading coefficient of largest absolute value; in exact arithmetic the choice
  changes neither the solution nor whether there is one.)

  When \<open>a\<close> is singular, what the solver does is decided by the rounding of its
  floating-point factorisation: it raises \<^verbatim>\<open>LinAlgError\<close> only if a pivot is exactly zero
  after rounding, and otherwise returns the numbers its back substitution produces. Real
  arithmetic does not determine that outcome, so it is the parameter \<open>on_singular\<close> of
  \<open>solve\<close>: any function from the two arguments to an error or a matrix.
\<close>

fun find_pivot :: "(vec \<times> vec) list \<Rightarrow> ((vec \<times> vec) \<times> (vec \<times> vec) list) option" where
  "find_pivot [] = None"
| "find_pivot (e # es) =
     (if hd (fst e) \<noteq> 0 then Some (e, es)
      else (case find_pivot es of None \<Rightarrow> None | Some (p, rest) \<Rightarrow> Some (p, e # rest)))"

definition eliminate :: "vec \<times> vec \<Rightarrow> vec \<times> vec \<Rightarrow> vec \<times> vec" where
  "eliminate p e =
     (let f = hd (fst e) / hd (fst p)
      in (map2 (\<lambda>x y. x - f * y) (tl (fst e)) (tl (fst p)), map2 (\<lambda>x y. x - f * y) (snd e) (snd p)))"

fun gauss :: "nat \<Rightarrow> nat \<Rightarrow> (vec \<times> vec) list \<Rightarrow> vec list option" where
  "gauss 0 k es = Some []"
| "gauss (Suc n) k es =
     (case find_pivot es of
        None \<Rightarrow> None
      | Some (p, rest) \<Rightarrow>
          (case gauss n k (map (eliminate p) rest) of
             None \<Rightarrow> None
           | Some X \<Rightarrow> Some (map2 (\<lambda>b s. (b - s) / hd (fst p)) (snd p) (vm k (tl (fst p)) X) # X)))"

definition solve :: "(mat \<Rightarrow> mat \<Rightarrow> error + mat) \<Rightarrow> mat \<Rightarrow> mat \<Rightarrow> error + mat" where
  "solve on_singular M B =
     (if nrows M \<noteq> ncols M then Inl LinAlgError
      else if nrows B \<noteq> nrows M then Inl ValueError
      else (case gauss (nrows M) (ncols B) (zip (rows M) (rows B)) of
              None \<Rightarrow> on_singular M B
            | Some X \<Rightarrow> Inr \<lparr>nrows = nrows M, ncols = ncols B, rows = X\<rparr>))"

text \<open>Equations of \<open>n\<close> coefficients and a right-hand side of length \<open>k\<close>.\<close>

definition shaped :: "nat \<Rightarrow> nat \<Rightarrow> (vec \<times> vec) list \<Rightarrow> bool" where
  "shaped n k es \<longleftrightarrow> list_all (\<lambda>e. length (fst e) = n \<and> length (snd e) = k) es"

text \<open>A matrix is singular when it sends some non-zero vector to zero.\<close>

definition singular :: "mat \<Rightarrow> bool" where
  "singular M \<longleftrightarrow>
     (\<exists>v. length v = ncols M \<and> v \<noteq> replicate (ncols M) 0 \<and> matvec M v = Inr (replicate (nrows M) 0))"

text \<open>
  \<^verbatim>\<open>esn_fit(Y, Z, L, A, C, zeta, alpha)\<close>. \<open>ridge_lhs\<close> and \<open>ridge_rhs\<close> are the two
  arguments of the call of \<^verbatim>\<open>np.linalg.solve\<close>:
  \<^verbatim>\<open>np.dot(X.T, X) + (T*L)*np.eye(K)\<close> and \<^verbatim>\<open>np.dot(X.T, Y)\<close>, with
  \<^verbatim>\<open>T, K = X.shape\<close>. The targets \<open>Y\<close> are a two-dimensional array. The first
  argument is the parameter of \<open>solve\<close>.
\<close>

definition ridge_lhs :: "mat \<Rightarrow> real \<Rightarrow> error + mat" where
  "ridge_lhs X L =
     (let T = nrows X; K = ncols X in
      ebind (matmul (transpose_mat X) X) (\<lambda>G.
      madd G (msmul (real T * L) (eye K))))"

definition ridge_rhs :: "mat \<Rightarrow> mat \<Rightarrow> error + mat" where
  "ridge_rhs X Y = matmul (transpose_mat X) Y"

definition esn_fit ::
  "(mat \<Rightarrow> mat \<Rightarrow> error + mat) \<Rightarrow> mat \<Rightarrow> mat \<Rightarrow> real \<Rightarrow> mat \<Rightarrow> mat \<Rightarrow> vec \<Rightarrow> real
     \<Rightarrow> error + mat \<times> mat \<times> mat \<times> mat" where
  "esn_fit on_singular Y Z L A C zeta alpha =
     ebind (esn_collect Z A C zeta alpha) (\<lambda>X.
     ebind (ridge_lhs X L) (\<lambda>M.
     ebind (ridge_rhs X Y) (\<lambda>B.
     ebind (solve on_singular M B) (\<lambda>W_hat.
     ebind (matmul X W_hat) (\<lambda>Y_fit.
     ebind (msub Y Y_fit) (\<lambda>Error.
     Inr (W_hat, X, Y_fit, Error)))))))"

section \<open>Normalisation of the reservoir matrices\<close>

text \<open>
  The normalisation of the reservoir matrices in \<^verbatim>\<open>esn_plot\<close>:
  \<^verbatim>\<open>A = (A / np.linalg.norm(A, 2)) * rho\<close> and likewise for \<open>C\<close> and \<open>gamma\<close>.
  \<^verbatim>\<open>np.linalg.norm(M, 2)\<close> of a two-dimensional array is its largest singular value,
  which is the operator norm induced by the Euclidean norm; numpy is not part of the
  repository, and \<open>opnorm2\<close> is that norm in exact arithmetic. On an array with no entry
  numpy raises \<^verbatim>\<open>ValueError\<close>; a division by a zero norm gives non-finite entries.
\<close>

definition vnorm :: "vec \<Rightarrow> real" where
  "vnorm v = sqrt (dot v v)"

definition mv :: "mat \<Rightarrow> vec \<Rightarrow> vec" where
  "mv M v = map (\<lambda>r. dot r v) (rows M)"

definition opnorm2 :: "mat \<Rightarrow> real" where
  "opnorm2 M = Sup {vnorm (mv M v) | v. length v = ncols M \<and> vnorm v = 1}"

definition mdiv :: "mat \<Rightarrow> real \<Rightarrow> mat" where
  "mdiv M s = M\<lparr>rows := map (map (\<lambda>x. x / s)) (rows M)\<rparr>"

definition mscale :: "mat \<Rightarrow> real \<Rightarrow> mat" where
  "mscale M c = M\<lparr>rows := map (map (\<lambda>x. x * c)) (rows M)\<rparr>"

definition rescale :: "mat \<Rightarrow> real \<Rightarrow> error + mat" where
  "rescale M t =
     (if nrows M = 0 \<or> ncols M = 0 then Inl ValueError
      else if opnorm2 M = 0 then Inl NonFinite
      else Inr (mscale (mdiv M (opnorm2 M)) t))"

section \<open>Properties of the array operations\<close>

lemma ebind_Inr [simp]: "ebind (Inr x) f = f x"
  by (simp add: ebind_def)

lemma ebind_Inl [simp]: "ebind (Inl e) f = Inl e"
  by (simp add: ebind_def)

lemma ebind_eq_Inr: "ebind m f = Inr y \<longleftrightarrow> (\<exists>x. m = Inr x \<and> f x = Inr y)"
  by (cases m) simp_all

lemma is_mat_row: "is_mat r c M \<Longrightarrow> i < r \<Longrightarrow> length (rows M ! i) = c"
  by (simp add: is_mat_def wf_mat_def list_all_length)

lemma is_mat_length: "is_mat r c M \<Longrightarrow> length (rows M) = r"
  by (simp add: is_mat_def wf_mat_def)

lemma is_mat_zeros: "is_mat r c (zeros r c)"
  by (simp add: is_mat_def wf_mat_def zeros_def list_all_length)

lemma is_mat_update:
  "is_mat r c M \<Longrightarrow> length v = c \<Longrightarrow> is_mat r c (M\<lparr>rows := (rows M)[i := v]\<rparr>)"
  by (cases "i < length (rows M)")
    (auto simp: is_mat_def wf_mat_def list_all_length nth_list_update)

lemma pick_nth: "i < length u \<Longrightarrow> pick u i = u ! i"
  by (auto simp: pick_def)

lemma vzip_same:
  "length u = length v \<Longrightarrow> vzip f u v = Inr (map (\<lambda>i. f (u ! i) (v ! i)) [0..<length u])"
  by (simp add: vzip_def bcast_def pick_nth)

lemma vadd_same:
  "length u = length v \<Longrightarrow> vadd u v = Inr (map (\<lambda>i. u ! i + v ! i) [0..<length u])"
  by (simp add: vadd_def vzip_same)

lemma matvec_ok:
  "is_mat r c M \<Longrightarrow> length v = c \<Longrightarrow> matvec M v = Inr (map (\<lambda>rw. dot rw v) (rows M))"
  by (simp add: matvec_def is_mat_def)

lemma set_row_ok:
  "is_mat r c M \<Longrightarrow> i < r \<Longrightarrow> length v = c \<Longrightarrow>
   set_row M i v = Inr (M\<lparr>rows := (rows M)[i := v]\<rparr>)"
  by (simp add: set_row_def is_mat_def)

lemma length_vsmul [simp]: "length (vsmul c v) = length v"
  by (simp add: vsmul_def)

lemma length_vtanh [simp]: "length (vtanh v) = length v"
  by (simp add: vtanh_def)

lemma length_step_val [simp]: "length (step_val A C zeta alpha x z) = length x"
  by (simp add: step_val_def)

section \<open>Properties of state collection\<close>

lemma collect_step_ok:
  assumes "is_mat n n A" "is_mat n m C" "length zeta = n" "length x = n" "length z = m"
  shows "collect_step A C zeta alpha x z = Inr (step_val A C zeta alpha x z)"
proof -
  have lA: "length (rows A) = n" and lC: "length (rows C) = n"
    using assms by (simp_all add: is_mat_length)
  show ?thesis
    using assms lA lC
    by (simp add: collect_step_def matvec_ok vadd_same step_val_def vsmul_def vtanh_def)
qed

lemma collect_first_ok:
  assumes "is_mat n m C" "length zeta = n" "is_mat T m Z" "2 \<le> T"
  shows "collect_first Z C zeta alpha = Inr (first_val C zeta alpha (rows Z ! 1))"
proof -
  have lz: "length (rows Z ! 1) = m" using assms by (simp add: is_mat_row)
  have lC: "length (rows C) = n" using assms by (simp add: is_mat_length)
  have r: "row_at Z 1 = Inr (rows Z ! 1)" using assms by (simp add: row_at_def is_mat_def)
  have va: "vadd (map (\<lambda>rw. dot rw (rows Z ! 1)) (rows C)) zeta
      = Inr (map (\<lambda>i. dot (rows C ! i) (rows Z ! 1) + zeta ! i) [0..<n])"
    using assms(2) lC by (simp add: vadd_same)
  show ?thesis
    unfolding collect_first_def r ebind_Inr matvec_ok[OF assms(1) lz] va
    using assms(2) by (simp add: first_val_def vsmul_def vtanh_def)
qed

text \<open>The loop over \<open>[a..<b]\<close> on well-shaped arguments: it ends, keeps the rows below
  \<open>a\<close>, and every row it writes is the step value of the row before it.\<close>

lemma collect_loop_spec:
  assumes A: "is_mat n n A" and C: "is_mat n m C" and z: "length zeta = n"
    and Z: "is_mat T m Z"
  shows "is_mat T n X \<Longrightarrow> 1 \<le> a \<Longrightarrow> b \<le> T \<Longrightarrow>
    \<exists>X'. collect_loop Z A C zeta alpha [a..<b] X = Inr X' \<and> is_mat T n X' \<and>
      (\<forall>i<a. rows X' ! i = rows X ! i) \<and>
      (\<forall>t. a \<le> t \<and> t < b \<longrightarrow>
         rows X' ! t = step_val A C zeta alpha (rows X' ! (t - 1)) (rows Z ! t))"
proof (induction "b - a" arbitrary: a X)
  case 0
  then have "b \<le> a" by simp
  then show ?case using 0 by auto
next
  case (Suc k)
  then have ab: "a < b" and aT: "a < T" by simp_all
  let ?x = "rows X ! (a - 1)" and ?z = "rows Z ! a"
  let ?v = "step_val A C zeta alpha ?x ?z"
  let ?X1 = "X\<lparr>rows := (rows X)[a := ?v]\<rparr>"
  have lx: "length ?x = n" using Suc.prems aT by (simp add: is_mat_row)
  have lz: "length ?z = m" using Z aT by (simp add: is_mat_row)
  have X1: "is_mat T n ?X1" using Suc.prems(1) lx by (simp add: is_mat_update)
  have k: "k = b - Suc a" using Suc.hyps(2) by simp
  obtain X' where X': "collect_loop Z A C zeta alpha [Suc a..<b] ?X1 = Inr X'" "is_mat T n X'"
      "\<forall>i<Suc a. rows X' ! i = rows ?X1 ! i"
      "\<forall>t. Suc a \<le> t \<and> t < b \<longrightarrow>
         rows X' ! t = step_val A C zeta alpha (rows X' ! (t - 1)) (rows Z ! t)"
    using Suc.hyps(1)[OF k X1 _ Suc.prems(3)] by auto
  have lenX: "length (rows X) = T" using Suc.prems(1) by (simp add: is_mat_length)
  have r1: "row_at X (a - 1) = Inr ?x"
    using aT Suc.prems(1) by (simp add: row_at_def is_mat_def)
  have r2: "row_at Z a = Inr ?z" using aT Z by (simp add: row_at_def is_mat_def)
  have cs: "collect_step A C zeta alpha ?x ?z = Inr ?v"
    by (rule collect_step_ok[OF A C z lx lz])
  have sr: "set_row X a ?v = Inr ?X1" using set_row_ok[OF Suc.prems(1) aT, of ?v] lx by simp
  have run: "collect_loop Z A C zeta alpha [a..<b] X = Inr X'"
    by (simp only: upt_rec[of a b] ab if_True collect_loop.simps r1 r2 cs sr ebind_Inr X'(1))
  have old: "\<forall>i<a. rows X' ! i = rows X ! i"
    using X'(3) by (simp add: nth_list_update)
  have at_a: "rows X' ! a = ?v" using X'(3) aT lenX by simp
  have prev: "rows X' ! (a - 1) = ?x" using old Suc.prems(2) by simp
  have rec: "\<forall>t. a \<le> t \<and> t < b \<longrightarrow>
      rows X' ! t = step_val A C zeta alpha (rows X' ! (t - 1)) (rows Z ! t)"
  proof (intro allI impI)
    fix t assume t: "a \<le> t \<and> t < b"
    show "rows X' ! t = step_val A C zeta alpha (rows X' ! (t - 1)) (rows Z ! t)"
    proof (cases "t = a")
      case True
      then show ?thesis using at_a prev by simp
    next
      case False
      then show ?thesis using t X'(4) by simp
    qed
  qed
  show ?case using run X'(2) old rec by blast
qed

text \<open>The whole collector on an input of at least two rows: a trajectory with one row
  per input row, whose first row is computed from the input row of index 1 and whose
  later rows follow the leaky recursion.\<close>

lemma esn_collect_spec:
  assumes A: "is_mat n n A" and C: "is_mat n m C" and z: "length zeta = n"
    and Z: "is_mat T m Z" and T: "2 \<le> T"
  shows "\<exists>X. esn_collect Z A C zeta alpha = Inr X \<and> is_mat T n X \<and>
      rows X ! 0 = first_val C zeta alpha (rows Z ! 1) \<and>
      (\<forall>t. 0 < t \<and> t < T \<longrightarrow>
         rows X ! t = step_val A C zeta alpha (rows X ! (t - 1)) (rows Z ! t))"
proof -
  let ?v = "first_val C zeta alpha (rows Z ! 1)"
  let ?X0 = "(zeros T n)\<lparr>rows := (rows (zeros T n))[0 := ?v]\<rparr>"
  have lv: "length ?v = n" using z by (simp add: first_val_def)
  have X0: "is_mat T n ?X0" using is_mat_update[OF is_mat_zeros lv] .
  have sr: "set_row (zeros T n) 0 ?v = Inr ?X0"
    using T by (intro set_row_ok[OF is_mat_zeros _ lv]) simp
  obtain X where X: "collect_loop Z A C zeta alpha [1..<T] ?X0 = Inr X" "is_mat T n X"
      "\<forall>i<1. rows X ! i = rows ?X0 ! i"
      "\<forall>t. 1 \<le> t \<and> t < T \<longrightarrow>
         rows X ! t = step_val A C zeta alpha (rows X ! (t - 1)) (rows Z ! t)"
    using collect_loop_spec[OF A C z Z X0, of 1 T alpha] by auto
  have nZ: "nrows Z = T" and nA: "nrows A = n" using Z A by (simp_all add: is_mat_def)
  have run: "esn_collect Z A C zeta alpha = Inr X"
    by (simp only: esn_collect_def Let_def nZ nA collect_first_ok[OF C z Z T] ebind_Inr sr X(1))
  have r0: "rows X ! 0 = ?v" using X(3) T by (simp add: zeros_def)
  show ?thesis using run X(2) r0 X(4) by (intro exI[of _ X]) auto
qed

lemma esn_collect_short: "nrows Z < 2 \<Longrightarrow> esn_collect Z A C zeta alpha = Inl IndexError"
  by (simp add: esn_collect_def collect_first_def row_at_def)

text \<open>
  Claim C10. On an input sequence of exactly one row the collector returns no trajectory:
  the bootstrap assignment reads \<^verbatim>\<open>Z[1,:]\<close>, an index out of range, and the call
  ends in \<open>IndexError\<close>. On well-shaped arguments with at least two input rows it returns a
  trajectory of as many rows.
\<close>

theorem esn_collect_single_input_fails:
  assumes "is_mat n n A" and "is_mat n m C" and "length zeta = n" and "is_mat T m Z"
  shows "(T = 1 \<longrightarrow> row_at Z 1 = Inl IndexError \<and> collect_first Z C zeta alpha = Inl IndexError
            \<and> esn_collect Z A C zeta alpha = Inl IndexError)
       \<and> (2 \<le> T \<longrightarrow> (\<exists>X. esn_collect Z A C zeta alpha = Inr X \<and> is_mat T n X))"
proof (intro conjI impI)
  assume T: "T = 1"
  then have n1: "nrows Z = 1" using assms(4) by (simp add: is_mat_def)
  show "row_at Z 1 = Inl IndexError" using n1 by (simp add: row_at_def)
  then show "collect_first Z C zeta alpha = Inl IndexError" by (simp add: collect_first_def)
  show "esn_collect Z A C zeta alpha = Inl IndexError" using n1 by (simp add: esn_collect_short)
next
  assume "2 \<le> T"
  from esn_collect_spec[OF assms this, of alpha]
  show "\<exists>X. esn_collect Z A C zeta alpha = Inr X \<and> is_mat T n X" by blast
qed

lemma is_mat_lit:
  "is_mat r c \<lparr>nrows = r', ncols = c', rows = rs\<rparr> \<longleftrightarrow>
     r' = r \<and> c' = c \<and> length rs = r \<and> list_all (\<lambda>x. length x = c) rs"
  by (auto simp: is_mat_def wf_mat_def)

theorem esn_collect_single_input_fails_witness:
  "is_mat 1 1 \<lparr>nrows = 1, ncols = 1, rows = [[0]]\<rparr>
   \<and> is_mat 1 1 \<lparr>nrows = 1, ncols = 1, rows = [[1]]\<rparr>
   \<and> length [0::real] = 1
   \<and> is_mat 1 1 \<lparr>nrows = 1, ncols = 1, rows = [[0]]\<rparr>
   \<and> is_mat 2 1 \<lparr>nrows = 2, ncols = 1, rows = [[0], [1]]\<rparr>
   \<and> esn_collect \<lparr>nrows = 1, ncols = 1, rows = [[0]]\<rparr> \<lparr>nrows = 1, ncols = 1, rows = [[0]]\<rparr>
       \<lparr>nrows = 1, ncols = 1, rows = [[1]]\<rparr> [0] 0 = Inl IndexError
   \<and> (\<exists>X. esn_collect \<lparr>nrows = 2, ncols = 1, rows = [[0], [1]]\<rparr> \<lparr>nrows = 1, ncols = 1, rows = [[0]]\<rparr>
       \<lparr>nrows = 1, ncols = 1, rows = [[1]]\<rparr> [0] 0 = Inr X \<and> is_mat 2 1 X)"
proof -
  have A: "is_mat 1 1 \<lparr>nrows = 1, ncols = 1, rows = [[0]]\<rparr>" by (simp add: is_mat_lit)
  have C: "is_mat 1 1 \<lparr>nrows = 1, ncols = 1, rows = [[1]]\<rparr>" by (simp add: is_mat_lit)
  have z: "length [0::real] = 1" by simp
  have Z2: "is_mat 2 1 \<lparr>nrows = 2, ncols = 1, rows = [[0], [1]]\<rparr>" by (simp add: is_mat_lit)
  have one: "esn_collect \<lparr>nrows = 1, ncols = 1, rows = [[0]]\<rparr> \<lparr>nrows = 1, ncols = 1, rows = [[0]]\<rparr>
       \<lparr>nrows = 1, ncols = 1, rows = [[1]]\<rparr> [0] 0 = Inl IndexError"
    using esn_collect_single_input_fails[OF A C z A, of 0] by simp
  have two: "\<exists>X. esn_collect \<lparr>nrows = 2, ncols = 1, rows = [[0], [1]]\<rparr> \<lparr>nrows = 1, ncols = 1, rows = [[0]]\<rparr>
       \<lparr>nrows = 1, ncols = 1, rows = [[1]]\<rparr> [0] 0 = Inr X \<and> is_mat 2 1 X"
    using esn_collect_single_input_fails[OF A C z Z2, of 0] by simp
  show ?thesis by (intro conjI A C z Z2 one two)
qed

text \<open>A run on the input sequence \<open>[[0], [1]]\<close> with \<open>A = [[0]]\<close>, \<open>C = [[1]]\<close>,
  \<open>zeta = [0]\<close>.\<close>

lemma esn_collect_two_rows:
  "esn_collect \<lparr>nrows = 2, ncols = 1, rows = [[0], [1]]\<rparr> \<lparr>nrows = 1, ncols = 1, rows = [[0]]\<rparr>
       \<lparr>nrows = 1, ncols = 1, rows = [[1]]\<rparr> [0] alpha
     = Inr \<lparr>nrows = 2, ncols = 1,
            rows = [[(1 - alpha) * tanh 1], [alpha * ((1 - alpha) * tanh 1) + (1 - alpha) * tanh 1]]\<rparr>"
  by (simp add: esn_collect_def collect_first_def collect_step_def row_at_def set_row_def
      matvec_def vadd_def vzip_def bcast_def pick_def vsmul_def vtanh_def dot_def zeros_def
      numeral_2_eq_2)

text \<open>
  Claim C1 says that the first state is \<open>(1 - leak_rate) * tanh (C @ input[0] + bias)\<close>.
  The code computes it from \<^verbatim>\<open>Z[1,:]\<close>. On the input sequence \<open>[[0], [1]]\<close> with
  \<open>A = [[0]]\<close>, \<open>C = [[1]]\<close>, \<open>zeta = [0]\<close> and \<open>alpha = 0\<close> the first state
  returned is \<open>[tanh 1]\<close>, the bootstrap value of the input row of index 1, and not
  \<open>[0]\<close>, the bootstrap value of the input row of index 0.
\<close>

theorem esn_collect_first_state_from_second_input:
  "esn_collect \<lparr>nrows = 2, ncols = 1, rows = [[0], [1]]\<rparr> \<lparr>nrows = 1, ncols = 1, rows = [[0]]\<rparr>
       \<lparr>nrows = 1, ncols = 1, rows = [[1]]\<rparr> [0] 0
     = Inr \<lparr>nrows = 2, ncols = 1, rows = [[tanh 1], [tanh 1]]\<rparr>
   \<and> first_val \<lparr>nrows = 1, ncols = 1, rows = [[1]]\<rparr> [0] 0 [1] = [tanh 1]
   \<and> first_val \<lparr>nrows = 1, ncols = 1, rows = [[1]]\<rparr> [0] 0 [0] = [0]
   \<and> tanh 1 \<noteq> (0::real)"
  using esn_collect_two_rows[of 0] by (simp add: first_val_def dot_def)

text \<open>
  Claim C2 says that an input sequence of length \<open>T \<ge> 1\<close> gives a trajectory of \<open>T\<close>
  states. For \<open>T = 1\<close> the code returns none: on the one-row input \<open>[[0]]\<close> the call ends
  in \<open>IndexError\<close>, by the same read of \<^verbatim>\<open>Z[1,:]\<close>. For \<open>T \<ge> 2\<close> the trajectory has
  \<open>T\<close> rows and the recursion of the claim holds for every \<open>0 < t < T\<close>: lemma
  \<open>esn_collect_spec\<close>.
\<close>

theorem esn_collect_one_row_index_error:
  "esn_collect \<lparr>nrows = 1, ncols = 1, rows = [[0]]\<rparr> \<lparr>nrows = 1, ncols = 1, rows = [[0]]\<rparr>
       \<lparr>nrows = 1, ncols = 1, rows = [[1]]\<rparr> [0] 0 = Inl IndexError"
  by (simp add: esn_collect_def collect_first_def row_at_def)

section \<open>Boundedness of the collected states\<close>

lemma pick_in_set: "i < length u \<or> length u = 1 \<Longrightarrow> pick u i \<in> set u"
  by (auto simp: pick_def)

lemma vzip_entries:
  assumes "vzip f u v = Inr w" and "e \<in> set w"
  shows "\<exists>a\<in>set u. \<exists>b\<in>set v. e = f a b"
proof -
  obtain n where n: "bcast (length u) (length v) = Some n"
    and w: "w = map (\<lambda>i. f (pick u i) (pick v i)) [0..<n]"
    using assms(1) by (auto simp: vzip_def split: option.splits)
  obtain i where i: "i < n" "e = f (pick u i) (pick v i)"
    using assms(2) w by auto
  have "pick u i \<in> set u" "pick v i \<in> set v"
    using n i(1) by (auto simp: bcast_def intro!: pick_in_set split: if_splits)
  then show ?thesis using i(2) by blast
qed

lemma convex_in_box:
  fixes a x t :: real
  assumes "0 \<le> a" "a \<le> 1" "- 1 \<le> x" "x \<le> 1" "- 1 \<le> t" "t \<le> 1"
  shows "- 1 \<le> a * x + (1 - a) * t \<and> a * x + (1 - a) * t \<le> 1"
proof -
  have 1: "a * x \<le> a * 1" using assms by (intro mult_left_mono) simp_all
  have 2: "a * (- 1) \<le> a * x" using assms by (intro mult_left_mono) simp_all
  have 3: "(1 - a) * t \<le> (1 - a) * 1" using assms by (intro mult_left_mono) simp_all
  have 4: "(1 - a) * (- 1) \<le> (1 - a) * t" using assms by (intro mult_left_mono) simp_all
  show ?thesis using 1 2 3 4 by (simp add: algebra_simps)
qed

lemma tanh_in_box: "- 1 \<le> tanh (x::real) \<and> tanh x \<le> 1"
  using tanh_real_lt_1[of x] tanh_real_gt_neg1[of x] by simp

lemma collect_step_box:
  assumes "collect_step A C zeta alpha x z = Inr v" "unit_box x" "0 \<le> alpha" "alpha \<le> 1"
  shows "unit_box v"
proof -
  obtain s where v: "vadd (vsmul alpha x) (vsmul (1 - alpha) (vtanh s)) = Inr v"
    using assms(1) by (auto simp: collect_step_def ebind_eq_Inr)
  have "- 1 \<le> e \<and> e \<le> 1" if e: "e \<in> set v" for e
  proof -
    obtain a b where ab: "a \<in> set (vsmul alpha x)" "b \<in> set (vsmul (1 - alpha) (vtanh s))" "e = a + b"
      using vzip_entries[OF v[unfolded vadd_def] e] by blast
    obtain xi where xi: "xi \<in> set x" "a = alpha * xi" using ab(1) by (auto simp: vsmul_def)
    obtain si where si: "b = (1 - alpha) * tanh si" using ab(2) by (auto simp: vsmul_def vtanh_def)
    have "- 1 \<le> xi \<and> xi \<le> 1" using assms(2) xi(1) by (simp add: unit_box_def list_all_iff)
    then show ?thesis
      using convex_in_box[OF assms(3,4), of xi "tanh si"] tanh_in_box[of si] ab(3) xi(2) si by simp
  qed
  then show ?thesis by (simp add: unit_box_def list_all_iff)
qed

lemma collect_first_box:
  assumes "collect_first Z C zeta alpha = Inr v" "0 \<le> alpha" "alpha \<le> 1"
  shows "unit_box v"
proof -
  obtain s where v: "v = vsmul (1 - alpha) (vtanh s)"
    using assms(1) by (auto simp: collect_first_def ebind_eq_Inr)
  have "- 1 \<le> (1 - alpha) * tanh y \<and> (1 - alpha) * tanh y \<le> 1" for y
    using convex_in_box[OF assms(2,3), of 0 "tanh y"] tanh_in_box[of y] by simp
  then show ?thesis by (auto simp: v unit_box_def list_all_iff vsmul_def vtanh_def)
qed

lemma set_row_box:
  assumes "set_row X i v = Inr X'" "box_mat X" "unit_box v"
  shows "box_mat X'"
proof -
  have "unit_box (replicate (ncols X) (v ! 0))" if "length v = 1"
  proof -
    have "v ! 0 \<in> set v" using that by (cases v) auto
    then show ?thesis using assms(3) by (auto simp: unit_box_def list_all_iff)
  qed
  then show ?thesis
    using assms
    by (auto simp: set_row_def box_mat_def list_all_iff split: if_splits dest!: set_update_subset_insert[THEN subsetD])
qed

lemma row_at_box: "row_at X i = Inr x \<Longrightarrow> box_mat X \<Longrightarrow> unit_box x"
  by (auto simp: row_at_def box_mat_def list_all_length split: if_splits)

lemma collect_loop_box:
  "collect_loop Z A C zeta alpha ts X = Inr X' \<Longrightarrow> box_mat X \<Longrightarrow> 0 \<le> alpha \<Longrightarrow> alpha \<le> 1 \<Longrightarrow> box_mat X'"
proof (induction ts arbitrary: X)
  case Nil
  then show ?case by simp
next
  case (Cons t ts)
  from Cons.prems(1) obtain x z v X1 where
    s: "row_at X (t - 1) = Inr x" "row_at Z t = Inr z" "collect_step A C zeta alpha x z = Inr v"
       "set_row X t v = Inr X1" "collect_loop Z A C zeta alpha ts X1 = Inr X'"
    by (auto simp: ebind_eq_Inr)
  have "unit_box x" using s(1) Cons.prems(2) by (rule row_at_box)
  then have "unit_box v" using collect_step_box[OF s(3)] Cons.prems(3,4) by simp
  then have "box_mat X1" using set_row_box[OF s(4) Cons.prems(2)] by simp
  then show ?case using Cons.IH[OF s(5)] Cons.prems(3,4) by simp
qed

lemma box_mat_zeros: "box_mat (zeros r c)"
  by (simp add: box_mat_def zeros_def unit_box_def list_all_iff)

text \<open>
  Claim C6. For a leak rate in \<open>[0, 1]\<close>, every entry of every state of a trajectory the
  collector returns lies in \<open>[-1, 1]\<close>: the bootstrap row is \<open>(1 - alpha)\<close> times a
  \<open>tanh\<close> value, and every later row is a convex combination of an entry of the
  previous row and a \<open>tanh\<close> value. No hypothesis on the shapes is needed.
\<close>

theorem esn_collect_states_bounded:
  assumes "esn_collect Z A C zeta alpha = Inr X" and "0 \<le> alpha" and "alpha \<le> 1"
  shows "\<forall>r\<in>set (rows X). \<forall>x\<in>set r. - 1 \<le> x \<and> x \<le> 1"
proof -
  obtain v X0 where s: "collect_first Z C zeta alpha = Inr v"
      "set_row (zeros (nrows Z) (nrows A)) 0 v = Inr X0"
      "collect_loop Z A C zeta alpha [1..<nrows Z] X0 = Inr X"
    using assms(1) by (auto simp: esn_collect_def Let_def ebind_eq_Inr)
  have "unit_box v" using collect_first_box[OF s(1) assms(2,3)] .
  then have "box_mat X0" using set_row_box[OF s(2) box_mat_zeros] by simp
  then have "box_mat X" using collect_loop_box[OF s(3) _ assms(2,3)] by simp
  then show ?thesis by (simp add: box_mat_def unit_box_def list_all_iff)
qed

theorem esn_collect_states_bounded_witness:
  "esn_collect \<lparr>nrows = 2, ncols = 1, rows = [[0], [1]]\<rparr> \<lparr>nrows = 1, ncols = 1, rows = [[0]]\<rparr>
       \<lparr>nrows = 1, ncols = 1, rows = [[1]]\<rparr> [0] (1 / 2)
     = Inr \<lparr>nrows = 2, ncols = 1,
            rows = [[(1 - 1 / 2) * tanh 1], [1 / 2 * ((1 - 1 / 2) * tanh 1) + (1 - 1 / 2) * tanh 1]]\<rparr>
   \<and> (0::real) \<le> 1 / 2 \<and> (1 / 2 :: real) \<le> 1
   \<and> - 1 \<le> (1 - 1 / 2) * tanh (1::real) \<and> (1 - 1 / 2) * tanh (1::real) \<le> 1
   \<and> - 1 \<le> 1 / 2 * ((1 - 1 / 2) * tanh 1) + (1 - 1 / 2) * tanh (1::real)
   \<and> 1 / 2 * ((1 - 1 / 2) * tanh 1) + (1 - 1 / 2) * tanh (1::real) \<le> 1"
proof -
  note e = esn_collect_two_rows[of "1 / 2"]
  have b: "- 1 \<le> (1 - 1 / 2) * tanh (1::real) \<and> (1 - 1 / 2) * tanh (1::real) \<le> 1
     \<and> - 1 \<le> 1 / 2 * ((1 - 1 / 2) * tanh 1) + (1 - 1 / 2) * tanh (1::real)
     \<and> 1 / 2 * ((1 - 1 / 2) * tanh 1) + (1 - 1 / 2) * tanh (1::real) \<le> 1"
    using esn_collect_states_bounded[OF e] by simp
  show ?thesis using b by (intro conjI e) simp_all
qed

section \<open>Properties of autonomous forecasting\<close>

lemma length_auto_val [simp]: "length (auto_val R zeta alpha x) = length x"
  by (simp add: auto_val_def)

lemma length_vm [simp]: "length (vm k v rs) = k"
  by (simp add: vm_def)

lemma auto_step_ok:
  assumes "is_mat n n R" "length zeta = n" "length x = n"
  shows "auto_step R zeta alpha x = Inr (auto_val R zeta alpha x)"
proof -
  have lR: "length (rows R) = n" using assms by (simp add: is_mat_length)
  show ?thesis
    using assms lR
    by (simp add: auto_step_def matvec_ok vadd_same auto_val_def vsmul_def vtanh_def)
qed

lemma vecmat_ok: "is_mat n m W \<Longrightarrow> length v = n \<Longrightarrow> vecmat v W = Inr (vm m v (rows W))"
  by (simp add: vecmat_def is_mat_def)

lemma auto_loop_spec:
  assumes R: "is_mat n n R" and z: "length zeta = n" and W: "is_mat n m W"
  shows "is_mat h n Xh \<Longrightarrow> is_mat h m Yh \<Longrightarrow> 1 \<le> a \<Longrightarrow> b \<le> h \<Longrightarrow>
    \<exists>Xh' Yh'. auto_loop R zeta alpha W [a..<b] (Xh, Yh) = Inr (Xh', Yh') \<and>
      is_mat h n Xh' \<and> is_mat h m Yh' \<and>
      (\<forall>i<a. rows Xh' ! i = rows Xh ! i \<and> rows Yh' ! i = rows Yh ! i) \<and>
      (\<forall>t. a \<le> t \<and> t < b \<longrightarrow>
         rows Xh' ! t = auto_val R zeta alpha (rows Xh' ! (t - 1)) \<and>
         rows Yh' ! t = vm m (rows Xh' ! t) (rows W))"
proof (induction "b - a" arbitrary: a Xh Yh)
  case 0
  then have "b \<le> a" by simp
  then show ?case using 0 by auto
next
  case (Suc k)
  then have ab: "a < b" and ah: "a < h" by simp_all
  let ?x = "rows Xh ! (a - 1)"
  let ?v = "auto_val R zeta alpha ?x"
  let ?X1 = "Xh\<lparr>rows := (rows Xh)[a := ?v]\<rparr>"
  let ?y = "vm m ?v (rows W)"
  let ?Y1 = "Yh\<lparr>rows := (rows Yh)[a := ?y]\<rparr>"
  have lx: "length ?x = n" using Suc.prems ah by (simp add: is_mat_row)
  have X1: "is_mat h n ?X1" using Suc.prems(1) lx by (simp add: is_mat_update)
  have Y1: "is_mat h m ?Y1" using Suc.prems(2) by (simp add: is_mat_update)
  have k: "k = b - Suc a" using Suc.hyps(2) by simp
  obtain Xh' Yh' where r: "auto_loop R zeta alpha W [Suc a..<b] (?X1, ?Y1) = Inr (Xh', Yh')"
      "is_mat h n Xh'" "is_mat h m Yh'"
      "\<forall>i<Suc a. rows Xh' ! i = rows ?X1 ! i \<and> rows Yh' ! i = rows ?Y1 ! i"
      "\<forall>t. Suc a \<le> t \<and> t < b \<longrightarrow>
         rows Xh' ! t = auto_val R zeta alpha (rows Xh' ! (t - 1)) \<and>
         rows Yh' ! t = vm m (rows Xh' ! t) (rows W)"
    using Suc.hyps(1)[OF k X1 Y1 _ Suc.prems(4)] by auto
  have lenX: "length (rows Xh) = h" using Suc.prems(1) by (simp add: is_mat_length)
  have lenY: "length (rows Yh) = h" using Suc.prems(2) by (simp add: is_mat_length)
  have r1: "row_at Xh (a - 1) = Inr ?x"
    using ah Suc.prems(1) by (simp add: row_at_def is_mat_def)
  have st: "auto_step R zeta alpha ?x = Inr ?v" by (rule auto_step_ok[OF R z lx])
  have sx: "set_row Xh a ?v = Inr ?X1" using set_row_ok[OF Suc.prems(1) ah, of ?v] lx by simp
  have r2: "row_at ?X1 a = Inr ?v"
    using ah Suc.prems(1) lenX by (simp add: row_at_def is_mat_def)
  have vw: "vecmat ?v W = Inr ?y" using vecmat_ok[OF W, of ?v] lx by simp
  have sy: "set_row Yh a ?y = Inr ?Y1" using set_row_ok[OF Suc.prems(2) ah, of ?y] by simp
  have run: "auto_loop R zeta alpha W [a..<b] (Xh, Yh) = Inr (Xh', Yh')"
    by (simp only: upt_rec[of a b] ab if_True auto_loop.simps r1 st sx r2 vw sy ebind_Inr r(1))
  have old: "\<forall>i<a. rows Xh' ! i = rows Xh ! i \<and> rows Yh' ! i = rows Yh ! i"
    using r(4) by (simp add: nth_list_update)
  have at_a: "rows Xh' ! a = ?v" "rows Yh' ! a = ?y" using r(4) ah lenX lenY by simp_all
  have prev: "rows Xh' ! (a - 1) = ?x" using old Suc.prems(3) by simp
  have rec: "\<forall>t. a \<le> t \<and> t < b \<longrightarrow>
      rows Xh' ! t = auto_val R zeta alpha (rows Xh' ! (t - 1)) \<and>
      rows Yh' ! t = vm m (rows Xh' ! t) (rows W)"
  proof (intro allI impI)
    fix t assume t: "a \<le> t \<and> t < b"
    show "rows Xh' ! t = auto_val R zeta alpha (rows Xh' ! (t - 1)) \<and>
      rows Yh' ! t = vm m (rows Xh' ! t) (rows W)"
    proof (cases "t = a")
      case True
      then show ?thesis using at_a prev by simp
    next
      case False
      then show ?thesis using t r(5) by simp
    qed
  qed
  show ?case using run r(2,3) old rec by blast
qed

lemma is_mat_transpose: "is_mat r c M \<Longrightarrow> is_mat c r (transpose_mat M)"
  by (auto simp: is_mat_def wf_mat_def transpose_mat_def col_def list_all_iff)

lemma is_mat_matmul:
  "is_mat r k A \<Longrightarrow> is_mat k c B \<Longrightarrow>
   \<exists>P. matmul A B = Inr P \<and> is_mat r c P \<and> rows P = map (\<lambda>rw. vm c rw (rows B)) (rows A)"
  by (auto simp: is_mat_def wf_mat_def matmul_def list_all_iff)

lemma mzip_same:
  assumes "is_mat r c A" "is_mat r c B"
  shows "mzip f A B = Inr \<lparr>nrows = r, ncols = c,
      rows = map (\<lambda>i. map (\<lambda>j. f (rows A ! i ! j) (rows B ! i ! j)) [0..<c]) [0..<r]\<rparr>"
proof -
  have "pick (pick (rows M) i) j = rows M ! i ! j" if "is_mat r c M" "i < r" "j < c" for M i j
    using that by (simp add: pick_nth is_mat_length is_mat_row)
  then show ?thesis
    using assms by (simp add: mzip_def bcast_def is_mat_def)
qed

lemma is_mat_mzip:
  assumes "is_mat r c A" "is_mat r c B"
  shows "\<exists>P. mzip f A B = Inr P \<and> is_mat r c P \<and>
     (\<forall>i<r. rows P ! i = map (\<lambda>j. f (rows A ! i ! j) (rows B ! i ! j)) [0..<c])"
  unfolding mzip_same[OF assms]
  by (simp add: is_mat_def wf_mat_def list_all_iff)

lemma esn_auto_spec:
  assumes A: "is_mat n n A" and C: "is_mat n m C" and W: "is_mat n m W"
    and z: "length zeta = n" and x0: "length X0 = n" and h: "1 \<le> h"
  shows "\<exists>CW R Xh Yh. matmul C (transpose_mat W) = Inr CW \<and> madd A CW = Inr R \<and> is_mat n n R \<and>
      esn_auto X0 h A C zeta alpha W = Inr (Xh, Yh) \<and> is_mat h n Xh \<and> is_mat h m Yh \<and>
      rows Xh ! 0 = X0 \<and> rows Yh ! 0 = vm m X0 (rows W) \<and>
      (\<forall>t. 0 < t \<and> t < h \<longrightarrow>
         rows Xh ! t = auto_val R zeta alpha (rows Xh ! (t - 1)) \<and>
         rows Yh ! t = vm m (rows Xh ! t) (rows W))"
proof -
  obtain CW where CW: "matmul C (transpose_mat W) = Inr CW" "is_mat n n CW"
    using is_mat_matmul[OF C is_mat_transpose[OF W]] by blast
  obtain R where R: "madd A CW = Inr R" "is_mat n n R"
    using is_mat_mzip[OF A CW(2), of "(+)"] by (auto simp: madd_def)
  let ?X0 = "(zeros h n)\<lparr>rows := (rows (zeros h n))[0 := X0]\<rparr>"
  let ?y0 = "vm m X0 (rows W)"
  let ?Y0 = "(zeros h m)\<lparr>rows := (rows (zeros h m))[0 := ?y0]\<rparr>"
  have X0: "is_mat h n ?X0" using is_mat_update[OF is_mat_zeros x0] .
  have Y0: "is_mat h m ?Y0" using is_mat_update[OF is_mat_zeros, of ?y0 m] by simp
  have sx: "set_row (zeros h n) 0 X0 = Inr ?X0"
    using h by (intro set_row_ok[OF is_mat_zeros _ x0]) simp
  have vw: "vecmat X0 W = Inr ?y0" using vecmat_ok[OF W x0] .
  have sy: "set_row (zeros h m) 0 ?y0 = Inr ?Y0"
    using h by (intro set_row_ok[OF is_mat_zeros]) simp_all
  obtain Xh Yh where r: "auto_loop R zeta alpha W [1..<h] (?X0, ?Y0) = Inr (Xh, Yh)"
      "is_mat h n Xh" "is_mat h m Yh"
      "\<forall>i<1. rows Xh ! i = rows ?X0 ! i \<and> rows Yh ! i = rows ?Y0 ! i"
      "\<forall>t. 1 \<le> t \<and> t < h \<longrightarrow>
         rows Xh ! t = auto_val R zeta alpha (rows Xh ! (t - 1)) \<and>
         rows Yh ! t = vm m (rows Xh ! t) (rows W)"
    using auto_loop_spec[OF R(2) z W X0 Y0, of 1 h alpha] by auto
  have nA: "nrows A = n" and cW: "ncols W = m" using A W by (simp_all add: is_mat_def)
  have run: "esn_auto X0 h A C zeta alpha W = Inr (Xh, Yh)"
    by (simp only: esn_auto_def Let_def nA cW CW(1) R(1) ebind_Inr sx vw sy r(1))
  have r0: "rows Xh ! 0 = X0" "rows Yh ! 0 = ?y0" using r(4) h by (simp_all add: zeros_def)
  show ?thesis using CW(1) R run r(2,3) r0 r(5) by (intro exI[of _ CW] exI[of _ R] exI[of _ Xh] exI[of _ Yh]) auto
qed

lemma dot_Cons [simp]: "dot (a # u) (b # v) = a * b + dot u v"
  by (simp add: dot_def)

lemma dot_Nil [simp]: "dot [] v = 0" "dot u [] = 0"
  by (simp_all add: dot_def)

lemma dot_sum: "length u = length v \<Longrightarrow> dot u v = (\<Sum>i<length u. u ! i * v ! i)"
proof (induction u v rule: list_induct2)
  case Nil
  then show ?case by simp
next
  case (Cons a u b v)
  then show ?case by (simp add: sum.lessThan_Suc_shift del: sum.lessThan_Suc)
qed

lemma vm_nth: "j < k \<Longrightarrow> vm k v rs ! j = dot v (col rs j)"
  by (simp add: vm_def)

lemma length_col [simp]: "length (col rs j) = length rs"
  by (simp add: col_def)

lemma col_nth: "i < length rs \<Longrightarrow> col rs j ! i = rs ! i ! j"
  by (simp add: col_def)

lemma col_transpose:
  assumes "is_mat n m W" "j < n"
  shows "col (rows (transpose_mat W)) j = rows W ! j"
proof (rule nth_equalityI)
  show "length (col (rows (transpose_mat W)) j) = length (rows W ! j)"
    using assms by (simp add: transpose_mat_def is_mat_row) (simp add: is_mat_def)
next
  fix k assume "k < length (col (rows (transpose_mat W)) j)"
  then have k: "k < m" using assms by (simp add: transpose_mat_def is_mat_def)
  have "length (rows W) = n" using assms by (simp add: is_mat_length)
  then show "col (rows (transpose_mat W)) j ! k = rows W ! j ! k"
    using assms k by (simp add: transpose_mat_def col_def is_mat_def)
qed

lemma fold_entries:
  assumes A: "is_mat n n A" and C: "is_mat n m C" and W: "is_mat n m W"
    and CW: "matmul C (transpose_mat W) = Inr CW" and R: "madd A CW = Inr R"
    and i: "i < n"
  shows "rows R ! i = map (\<lambda>j. rows A ! i ! j + dot (rows C ! i) (rows W ! j)) [0..<n]"
proof -
  obtain P where P: "matmul C (transpose_mat W) = Inr P" "is_mat n n P"
      "rows P = map (\<lambda>rw. vm n rw (rows (transpose_mat W))) (rows C)"
    using is_mat_matmul[OF C is_mat_transpose[OF W]] by blast
  have PC: "P = CW" using P(1) CW by simp
  have lC: "length (rows C) = n" using C by (simp add: is_mat_length)
  have e: "rows CW ! i ! j = dot (rows C ! i) (rows W ! j)" if "j < n" for j
    using P(3) i that lC by (simp add: PC[symmetric] vm_nth col_transpose[OF W])
  obtain R' where R': "madd A CW = Inr R'"
      "\<forall>i<n. rows R' ! i = map (\<lambda>j. rows A ! i ! j + rows CW ! i ! j) [0..<n]"
    using is_mat_mzip[OF A P(2)[unfolded PC], of "(+)"] by (auto simp: madd_def)
  have "R' = R" using R R'(1) by simp
  then show ?thesis using R'(2) i e by simp
qed



lemma vm_entry:
  assumes "is_mat n m W" and "length v = n" and "j < m"
  shows "vm m v (rows W) ! j = (\<Sum>i<n. v ! i * rows W ! i ! j)"
proof -
  have l: "length (rows W) = n" using assms(1) by (rule is_mat_length)
  have "vm m v (rows W) ! j = dot v (col (rows W) j)" using assms(3) by (rule vm_nth)
  also have "\<dots> = (\<Sum>i<length v. v ! i * col (rows W) j ! i)"
    by (rule dot_sum) (simp add: l assms(2))
  also have "\<dots> = (\<Sum>i<n. v ! i * rows W ! i ! j)"
    unfolding assms(2) by (intro sum.cong refl) (simp add: col_nth l)
  finally show ?thesis .
qed

text \<open>
  Claim C4. For a seed state of the state dimension, a horizon \<open>h \<ge> 1\<close> and well-shaped
  parameters and readout weights (input dimension equal to output dimension), the
  forecaster returns \<open>h\<close> states and \<open>h\<close> outputs; the matrix \<open>R = A + C @ W.T\<close> is
  computed once, before the loop; \<open>state[0]\<close> is the seed and \<open>output[0] = seed @ W\<close>,
  that is \<open>output[0][j] = \<Sum>i. seed[i] * W[i][j]\<close>; and for \<open>0 < t < h\<close>,
  \<open>state[t] = alpha * state[t-1] + (1 - alpha) * tanh (R @ state[t-1] + zeta)\<close> and
  \<open>output[t] = state[t] @ W\<close>, that is \<open>output[t][j] = \<Sum>i. state[t][i] * W[i][j]\<close>.
\<close>

theorem esn_auto_trajectory:
  assumes "is_mat n n A" and "is_mat n m C" and "is_mat n m W"
    and "length zeta = n" and "length X0 = n" and "1 \<le> h"
  shows "\<exists>CW R Xh Yh.
      matmul C (transpose_mat W) = Inr CW \<and> madd A CW = Inr R \<and>
      (\<forall>i<n. rows R ! i = map (\<lambda>j. rows A ! i ! j + dot (rows C ! i) (rows W ! j)) [0..<n]) \<and>
      esn_auto X0 h A C zeta alpha W = Inr (Xh, Yh) \<and> is_mat h n Xh \<and> is_mat h m Yh \<and>
      rows Xh ! 0 = X0 \<and> vecmat X0 W = Inr (rows Yh ! 0) \<and>
      rows Yh ! 0 = map (\<lambda>j. \<Sum>i<n. X0 ! i * rows W ! i ! j) [0..<m] \<and>
      (\<forall>t. 0 < t \<and> t < h \<longrightarrow>
         rows Xh ! t =
           map (\<lambda>i. alpha * rows Xh ! (t - 1) ! i
                     + (1 - alpha) * tanh (dot (rows R ! i) (rows Xh ! (t - 1)) + zeta ! i)) [0..<n] \<and>
         vecmat (rows Xh ! t) W = Inr (rows Yh ! t) \<and>
         rows Yh ! t = map (\<lambda>j. \<Sum>i<n. rows Xh ! t ! i * rows W ! i ! j) [0..<m])"
proof -
  obtain CW R Xh Yh where s:
      "matmul C (transpose_mat W) = Inr CW" "madd A CW = Inr R" "is_mat n n R"
      "esn_auto X0 h A C zeta alpha W = Inr (Xh, Yh)" "is_mat h n Xh" "is_mat h m Yh"
      "rows Xh ! 0 = X0" "rows Yh ! 0 = vm m X0 (rows W)"
      "\<forall>t. 0 < t \<and> t < h \<longrightarrow>
         rows Xh ! t = auto_val R zeta alpha (rows Xh ! (t - 1)) \<and>
         rows Yh ! t = vm m (rows Xh ! t) (rows W)"
    using esn_auto_spec[OF assms, of alpha] by blast
  have ent: "\<forall>i<n. rows R ! i = map (\<lambda>j. rows A ! i ! j + dot (rows C ! i) (rows W ! j)) [0..<n]"
    using fold_entries[OF assms(1,2,3) s(1,2)] by blast
  have out: "vm m v (rows W) = map (\<lambda>j. \<Sum>i<n. v ! i * rows W ! i ! j) [0..<m]"
    if v: "length v = n" for v
  proof (rule nth_equalityI)
    show "length (vm m v (rows W)) = length (map (\<lambda>j. \<Sum>i<n. v ! i * rows W ! i ! j) [0..<m])"
      by (simp add: vm_def)
    fix j assume "j < length (vm m v (rows W))"
    then have j: "j < m" by (simp add: vm_def)
    show "vm m v (rows W) ! j = map (\<lambda>j. \<Sum>i<n. v ! i * rows W ! i ! j) [0..<m] ! j"
      using vm_entry[OF assms(3) v j] j by simp
  qed
  have y0: "vecmat X0 W = Inr (rows Yh ! 0)"
    using vecmat_ok[OF assms(3,5)] s(8) by simp
  have y0e: "rows Yh ! 0 = map (\<lambda>j. \<Sum>i<n. X0 ! i * rows W ! i ! j) [0..<m]"
    using out[OF assms(5)] s(8) by simp
  have step: "\<forall>t. 0 < t \<and> t < h \<longrightarrow> rows Xh ! t =
           map (\<lambda>i. alpha * rows Xh ! (t - 1) ! i
                     + (1 - alpha) * tanh (dot (rows R ! i) (rows Xh ! (t - 1)) + zeta ! i)) [0..<n] \<and>
         vecmat (rows Xh ! t) W = Inr (rows Yh ! t) \<and>
         rows Yh ! t = map (\<lambda>j. \<Sum>i<n. rows Xh ! t ! i * rows W ! i ! j) [0..<m]"
  proof (intro allI impI)
    fix t assume t: "0 < t \<and> t < h"
    have "t - 1 < h" using t by auto
    then have l1: "length (rows Xh ! (t - 1)) = n" using s(5) by (rule is_mat_row[rotated])
    have l2: "length (rows Xh ! t) = n" using s(5) t by (simp add: is_mat_row)
    have a: "rows Xh ! t =
           map (\<lambda>i. alpha * rows Xh ! (t - 1) ! i
                     + (1 - alpha) * tanh (dot (rows R ! i) (rows Xh ! (t - 1)) + zeta ! i)) [0..<n]"
      using s(9) t l1 by (simp add: auto_val_def)
    have b: "vecmat (rows Xh ! t) W = Inr (rows Yh ! t)"
      using s(9) t vecmat_ok[OF assms(3) l2] by simp
    have c: "rows Yh ! t = map (\<lambda>j. \<Sum>i<n. rows Xh ! t ! i * rows W ! i ! j) [0..<m]"
      using s(9) t out[OF l2] by simp
    show "rows Xh ! t =
           map (\<lambda>i. alpha * rows Xh ! (t - 1) ! i
                     + (1 - alpha) * tanh (dot (rows R ! i) (rows Xh ! (t - 1)) + zeta ! i)) [0..<n] \<and>
         vecmat (rows Xh ! t) W = Inr (rows Yh ! t) \<and>
         rows Yh ! t = map (\<lambda>j. \<Sum>i<n. rows Xh ! t ! i * rows W ! i ! j) [0..<m]"
      by (intro conjI a b c)
  qed
  show ?thesis
    by (intro exI[of _ CW] exI[of _ R] exI[of _ Xh] exI[of _ Yh] conjI
        s(1) s(2) ent s(4) s(5) s(6) s(7) y0 y0e step)
qed

theorem esn_auto_trajectory_witness:
  "is_mat 1 1 \<lparr>nrows = 1, ncols = 1, rows = [[1 / 2]]\<rparr>
   \<and> is_mat 1 1 \<lparr>nrows = 1, ncols = 1, rows = [[1]]\<rparr>
   \<and> is_mat 1 1 \<lparr>nrows = 1, ncols = 1, rows = [[2]]\<rparr>
   \<and> length [0::real] = 1 \<and> length [1::real] = 1 \<and> (1::nat) \<le> 2
   \<and> (\<exists>Xh Yh. esn_auto [1] 2 \<lparr>nrows = 1, ncols = 1, rows = [[1 / 2]]\<rparr>
          \<lparr>nrows = 1, ncols = 1, rows = [[1]]\<rparr> [0] (1 / 2) \<lparr>nrows = 1, ncols = 1, rows = [[2]]\<rparr>
        = Inr (Xh, Yh) \<and> is_mat 2 1 Xh \<and> is_mat 2 1 Yh \<and> rows Xh ! 0 = [1] \<and> rows Yh ! 0 = [2]
        \<and> rows Xh ! 1 = [1 / 2 + 1 / 2 * tanh (5 / 2)]
        \<and> rows Yh ! 1 = [(1 / 2 + 1 / 2 * tanh (5 / 2)) * 2])"
  using esn_auto_trajectory[of 1 "\<lparr>nrows = 1, ncols = 1, rows = [[1 / 2]]\<rparr>" 1
      "\<lparr>nrows = 1, ncols = 1, rows = [[1]]\<rparr>" "\<lparr>nrows = 1, ncols = 1, rows = [[2]]\<rparr>"
      "[0]" "[1]" 2 "1 / 2"]
  apply (simp add: is_mat_lit dot_def)
  apply (elim exE conjE)
  subgoal for CW R Xh Yh
    apply (rule exI[of _ Xh], rule exI[of _ Yh])
    apply simp
    done
  done



section \<open>Properties of the Mackey-Glass integrator\<close>

text \<open>Rounding to the nearest integer, ties to even.\<close>

lemma round_half_even_near: "\<bar>of_int (round_half_even x) - x\<bar> \<le> 1 / 2"
proof -
  have "of_int \<lfloor>x\<rfloor> \<le> x" "x < of_int \<lfloor>x\<rfloor> + 1" by linarith+
  then show ?thesis by (auto simp: round_half_even_def Let_def)
qed




lemma round_half_even_eval: "\<bar>x - of_int k\<bar> < 1 / 2 \<Longrightarrow> round_half_even x = k"
proof -
  assume a: "\<bar>x - of_int k\<bar> < 1 / 2"
  have n: "\<bar>of_int (round_half_even x) - x\<bar> \<le> 1 / 2" by (rule round_half_even_near)
  have "\<bar>(of_int (round_half_even x) :: real) - of_int k\<bar> < 1" using a n by linarith
  then have "\<bar>round_half_even x - k\<bar> < 1"
    by (metis of_int_diff of_int_abs of_int_less_1_iff)
  then show ?thesis by simp
qed

text \<open>The float nearest to a real \<open>r\<close> in the binade \<open>[2 powi e, 2 powi (e + 1))\<close>.\<close>

lemma fl64_exponent:
  assumes "2 powi e \<le> \<bar>r\<bar>" "\<bar>r\<bar> < 2 powi (e + 1)"
  shows "\<lfloor>log 2 \<bar>r\<bar>\<rfloor> = e"
proof -
  have "(0::real) < 2 powi e" by (rule zero_less_power_int) simp
  then have p: "0 < \<bar>r\<bar>" using assms(1) by linarith
  have "(2::real) powr real_of_int e = 2 powi e" "(2::real) powr real_of_int (e + 1) = 2 powi (e + 1)"
    by (simp_all add: powr_real_of_int' del: of_int_add)
  then show ?thesis using assms floor_log_eq_powr_iff[of "\<bar>r\<bar>" 2 e] p by (simp add: add.commute)
qed

lemma fl64_normal:
  assumes "2 powi e \<le> \<bar>r\<bar>" "\<bar>r\<bar> < 2 powi (e + 1)" "- 1022 \<le> e"
  shows "fl64 r = of_int (round_half_even (r / 2 powi (e - 52))) * 2 powi (e - 52)"
proof -
  have "(0::real) < 2 powi e" by (rule zero_less_power_int) simp
  then have "0 < \<bar>r\<bar>" using assms(1) by linarith
  then have "r \<noteq> 0" by auto
  then show ?thesis using fl64_exponent[OF assms(1,2)] assms(3) by (simp add: fl64_def max_def)
qed

lemma powi_nat: "(2::real) powi int e = 2 ^ e"
  by (rule power_int_of_nat)

lemma powi_Suc: "(2::real) powi (int e + 1) = 2 * 2 ^ e"
proof -
  have "int e + 1 = int (Suc e)" by simp
  then have "(2::real) powi (int e + 1) = 2 ^ Suc e" by (simp only: power_int_of_nat)
  then show ?thesis by simp
qed

lemma powi_neg: "e \<le> 52 \<Longrightarrow> (2::real) powi (int e - 52) = 1 / 2 ^ (52 - e)"
proof -
  assume "e \<le> 52"
  then have "int e - 52 = - int (52 - e)" by simp
  then have "(2::real) powi (int e - 52) = 2 powi (- int (52 - e))" by (rule arg_cong)
  also have "\<dots> = inverse (2 ^ (52 - e))" by (simp only: power_int_minus power_int_of_nat)
  finally show ?thesis by (simp only: inverse_eq_divide)
qed

lemma fl64_eval:
  assumes "2 ^ e \<le> \<bar>r\<bar>" "\<bar>r\<bar> < 2 * 2 ^ e" "e \<le> 52"
    and "\<bar>r * 2 ^ (52 - e) - of_int k\<bar> < 1 / 2"
  shows "fl64 r = of_int k / 2 ^ (52 - e)"
proof -
  note c = powi_neg[OF assms(3)]
  have 1: "2 powi int e \<le> \<bar>r\<bar>" using assms(1) by (simp only: powi_nat)
  have 2: "\<bar>r\<bar> < 2 powi (int e + 1)" using assms(2) by (simp only: powi_Suc)
  have 3: "- 1022 \<le> int e" by simp
  have n: "fl64 r = of_int (round_half_even (r / 2 powi (int e - 52))) * 2 powi (int e - 52)"
    using 1 2 3 by (rule fl64_normal)
  have "r / 2 powi (int e - 52) = r * 2 ^ (52 - e)" unfolding c by simp
  then have "round_half_even (r / 2 powi (int e - 52)) = k"
    using round_half_even_eval[OF assms(4)] by simp
  then show ?thesis unfolding n c by simp
qed























text \<open>
  The call of the notebook has \<open>tau = 25\<close> and \<open>delta_t = 0.2\<close>, the float
  \<open>3602879701896397 / 2 ^ 54\<close>. The exact quotient of the two lies just below 125 and
  rounds to the float 125: the delay is 125 steps, where truncating the exact quotient
  would give 124. Likewise \<open>1 / 0.2\<close> is the float 5.
\<close>

lemma delay_steps_notebook:
  "delay_steps 25 (3602879701896397 / 18014398509481984) = Inr 125"
proof -
  have "fl64 (25 / (3602879701896397 / 18014398509481984)) = 125"
    using fl64_eval[of 6 "25 / (3602879701896397 / 18014398509481984)" "8796093022208000"]
    by simp
  then show ?thesis by (simp add: delay_steps_def py_int_def)
qed

lemma exact_quotient_notebook:
  "\<lfloor>25 / (3602879701896397 / 18014398509481984 :: real)\<rfloor> = 124"
  by (simp add: floor_eq_iff)


text \<open>
  A run that meets a zero denominator: with \<open>beta = 0\<close>, \<open>gamma = 1\<close>, \<open>n = 1\<close> and
  \<open>tau = delta_t = 3\<close> the first step stores \<open>-1\<close>, the second divides \<open>0 * (-1)\<close> by
  \<open>1 + (-1)\<close> and stores \<^verbatim>\<open>nan\<close>; the call returns the array.
\<close>

lemma delay_steps_one: "delay_steps 3 3 = Inr 1"
proof -
  have f: "fl64 1 = 1" using fl64_eval[of 0 1 "4503599627370496"] by simp
  show ?thesis by (simp add: delay_steps_def py_int_def f)
qed

lemma mackey_glass_stores_nan:
  "mackey_glass 0 1 1 3 1 3 3 = Inr [Fin (1 / 2), Fin (- 1), NaN]"
  by (simp add: mackey_glass_def vec_set_def vec_at_def mg_rhs_def delay_steps_one delay_index_def
      fsub_def is_int_def numeral_3_eq_3 upt_rec)




section \<open>Properties of the ridge readout\<close>

lemma find_pivot_Some:
  "find_pivot es = Some (p, rest) \<Longrightarrow>
     hd (fst p) \<noteq> 0 \<and> set es = insert p (set rest) \<and> length es = Suc (length rest)"
proof (induction es arbitrary: p rest)
  case Nil
  then show ?case by simp
next
  case (Cons e es)
  show ?case
  proof (cases "hd (fst e) \<noteq> 0")
    case True
    then show ?thesis using Cons.prems by auto
  next
    case False
    then obtain r where r: "find_pivot es = Some (p, r)" "rest = e # r"
      using Cons.prems by (auto split: option.splits)
    show ?thesis using Cons.IH[OF r(1)] r(2) by auto
  qed
qed

lemma find_pivot_None: "find_pivot es = None \<Longrightarrow> e \<in> set es \<Longrightarrow> hd (fst e) = 0"
  by (induction es) (auto split: if_splits option.splits)

lemma dot_axpy:
  "length u = length w \<Longrightarrow> length w = length v \<Longrightarrow>
   dot (map2 (\<lambda>x y. x - f * y) u w) v = dot u v - f * dot w v"
proof (induction u w v rule: list_induct3)
  case Nil
  then show ?case by simp
next
  case (Cons x xs y ys z zs)
  then show ?case by (simp add: algebra_simps)
qed

lemma dot_zeros [simp]: "dot u (replicate n 0) = 0"
proof (induction u arbitrary: n)
  case Nil
  then show ?case by simp
next
  case (Cons a u)
  then show ?case by (cases n) simp_all
qed

lemma shaped_pivot:
  assumes "shaped (Suc n) k es" "find_pivot es = Some (p, rest)"
  shows "length (fst p) = Suc n" "length (snd p) = k" "shaped (Suc n) k rest"
    "shaped n k (map (eliminate p) rest)"
proof -
  have s: "set es = insert p (set rest)" using find_pivot_Some[OF assms(2)] by simp
  show p: "length (fst p) = Suc n" "length (snd p) = k"
    using assms(1) s by (auto simp: shaped_def list_all_iff)
  show r: "shaped (Suc n) k rest" using assms(1) s by (auto simp: shaped_def list_all_iff)
  show "shaped n k (map (eliminate p) rest)"
    using r p by (auto simp: shaped_def list_all_iff eliminate_def Let_def)
qed

lemma eliminate_dot:
  assumes "length (fst p) = Suc n" "length (fst e) = Suc n" "length v = n"
  shows "dot (fst (eliminate p e)) v = dot (tl (fst e)) v - hd (fst e) / hd (fst p) * dot (tl (fst p)) v"
  unfolding eliminate_def Let_def fst_conv
  by (rule dot_axpy) (use assms in simp_all)

lemma eliminate_rhs:
  assumes "length (snd p) = k" "length (snd e) = k" "j < k"
  shows "snd (eliminate p e) ! j = snd e ! j - hd (fst e) / hd (fst p) * snd p ! j"
  using assms by (simp add: eliminate_def Let_def)

lemma dot_hd_tl: "length u = Suc n \<Longrightarrow> dot u (x # v) = hd u * x + dot (tl u) v"
  by (cases u) simp_all

lemma col_Cons [simp]: "col (x # X) j = x ! j # col X j"
  by (simp add: col_def)

lemma gauss_sound:
  "gauss n k es = Some X \<Longrightarrow> shaped n k es \<Longrightarrow> length es = n \<Longrightarrow>
   length X = n \<and> list_all (\<lambda>x. length x = k) X \<and>
   (\<forall>e\<in>set es. \<forall>j<k. dot (fst e) (col X j) = snd e ! j)"
proof (induction n arbitrary: es X)
  case 0
  then show ?case by simp
next
  case (Suc n)
  from Suc.prems(1) obtain p rest X' where g: "find_pivot es = Some (p, rest)"
      "gauss n k (map (eliminate p) rest) = Some X'"
      "X = map2 (\<lambda>b s. (b - s) / hd (fst p)) (snd p) (vm k (tl (fst p)) X') # X'"
    by (auto split: option.splits)
  note fp = find_pivot_Some[OF g(1)]
  note sh = shaped_pivot[OF Suc.prems(2) g(1)]
  have lr: "length (map (eliminate p) rest) = n" using fp Suc.prems(3) by simp
  have IH: "length X' = n" "list_all (\<lambda>x. length x = k) X'"
      "\<forall>e\<in>set (map (eliminate p) rest). \<forall>j<k. dot (fst e) (col X' j) = snd e ! j"
    using Suc.IH[OF g(2) sh(4) lr] by simp_all
  let ?a = "hd (fst p)"
  let ?x0 = "map2 (\<lambda>b s. (b - s) / ?a) (snd p) (vm k (tl (fst p)) X')"
  have a: "?a \<noteq> 0" using fp by simp
  have x0: "?x0 ! j = (snd p ! j - dot (tl (fst p)) (col X' j)) / ?a" if "j < k" for j
    using that sh(2) by (simp add: vm_def)
  have lx0: "length ?x0 = k" using sh(2) by (simp add: vm_def)
  have eq: "dot (fst e) (col X j) = snd e ! j" if e: "e \<in> set es" and j: "j < k" for e j
  proof -
    have le: "length (fst e) = Suc n" "length (snd e) = k"
      using Suc.prems(2) e by (auto simp: shaped_def list_all_iff)
    have d: "dot (fst e) (col X j) = hd (fst e) * ?x0 ! j + dot (tl (fst e)) (col X' j)"
      using le(1) by (simp add: g(3) dot_hd_tl)
    show ?thesis
    proof (cases "e = p")
      case True
      then show ?thesis using d x0[OF j] a by simp
    next
      case False
      then have "e \<in> set rest" using e fp by auto
      then have "dot (fst (eliminate p e)) (col X' j) = snd (eliminate p e) ! j"
        using IH(3) j by simp
      then have "dot (tl (fst e)) (col X' j) - hd (fst e) / ?a * dot (tl (fst p)) (col X' j)
          = snd e ! j - hd (fst e) / ?a * snd p ! j"
        using eliminate_dot[OF sh(1) le(1), of "col X' j"] eliminate_rhs[OF sh(2) le(2) j] IH(1)
        by (simp add: col_def)
      then show ?thesis using d x0[OF j] a by (simp add: field_simps)
    qed
  qed
  show ?case using IH(1,2) lx0 eq by (simp add: g(3))
qed

lemma gauss_kernel_trivial:
  "gauss n k es = Some X \<Longrightarrow> shaped n k es \<Longrightarrow> length v = n \<Longrightarrow>
   \<forall>e\<in>set es. dot (fst e) v = 0 \<Longrightarrow> v = replicate n 0"
proof (induction n arbitrary: es X v)
  case 0
  then show ?case by simp
next
  case (Suc n)
  from Suc.prems(1) obtain p rest X' where g: "find_pivot es = Some (p, rest)"
      "gauss n k (map (eliminate p) rest) = Some X'"
    by (auto split: option.splits)
  note fp = find_pivot_Some[OF g(1)]
  note sh = shaped_pivot[OF Suc.prems(2) g(1)]
  obtain v0 vt where v: "v = v0 # vt" "length vt = n" using Suc.prems(3) by (cases v) auto
  let ?a = "hd (fst p)"
  have a: "?a \<noteq> 0" using fp by simp
  have pv: "?a * v0 + dot (tl (fst p)) vt = 0"
    using Suc.prems(4) fp sh(1) by (simp add: v(1) dot_hd_tl[symmetric])
  have "dot (fst e') vt = 0" if m: "e' \<in> set (map (eliminate p) rest)" for e'
  proof -
    obtain e where e: "e \<in> set rest" "e' = eliminate p e"
      using m unfolding set_map by blast
    have le: "length (fst e) = Suc n" using sh(3) e(1) by (auto simp: shaped_def list_all_iff)
    have ev: "hd (fst e) * v0 + dot (tl (fst e)) vt = 0"
      using Suc.prems(4) fp e(1) le by (simp add: v(1) dot_hd_tl[symmetric])
    have "dot (fst e') vt = dot (tl (fst e)) vt - hd (fst e) / ?a * dot (tl (fst p)) vt"
      unfolding e(2) by (rule eliminate_dot[OF sh(1) le v(2)])
    also have "\<dots> = 0" using ev pv a by (simp add: field_simps) algebra
    finally show ?thesis .
  qed
  then have vt: "vt = replicate n 0" using Suc.IH[OF g(2) sh(4) v(2)] by blast
  then have "v0 = 0" using pv a by simp
  then show ?case using vt v(1) by simp
qed

lemma gauss_None_kernel:
  "gauss n k es = None \<Longrightarrow> shaped n k es \<Longrightarrow>
   \<exists>v. length v = n \<and> v \<noteq> replicate n 0 \<and> (\<forall>e\<in>set es. dot (fst e) v = 0)"
proof (induction n arbitrary: es)
  case 0
  then show ?case by simp
next
  case (Suc n)
  show ?case
  proof (cases "find_pivot es")
    case None
    let ?v = "1 # replicate n (0::real)"
    have "dot (fst e) ?v = 0" if "e \<in> set es" for e
    proof -
      have "length (fst e) = Suc n" using Suc.prems(2) that by (auto simp: shaped_def list_all_iff)
      then show ?thesis using find_pivot_None[OF None that] by (simp add: dot_hd_tl)
    qed
    then show ?thesis by (intro exI[of _ ?v]) simp
  next
    case (Some pr)
    then obtain p rest where g: "find_pivot es = Some (p, rest)" by (cases pr) auto
    then have gn: "gauss n k (map (eliminate p) rest) = None"
      using Suc.prems(1) by (auto split: option.splits)
    note fp = find_pivot_Some[OF g]
    note sh = shaped_pivot[OF Suc.prems(2) g]
    obtain vt where vt: "length vt = n" "vt \<noteq> replicate n 0"
        "\<forall>e\<in>set (map (eliminate p) rest). dot (fst e) vt = 0"
      using Suc.IH[OF gn sh(4)] by blast
    let ?a = "hd (fst p)"
    have a: "?a \<noteq> 0" using fp by simp
    let ?v0 = "- dot (tl (fst p)) vt / ?a"
    let ?v = "?v0 # vt"
    have "dot (fst e) ?v = 0" if e: "e \<in> set es" for e
    proof (cases "e = p")
      case True
      then show ?thesis using sh(1) a by (simp add: dot_hd_tl)
    next
      case False
      then have er: "e \<in> set rest" using e fp by auto
      have le: "length (fst e) = Suc n" using sh(3) er by (auto simp: shaped_def list_all_iff)
      have "dot (fst (eliminate p e)) vt = 0" using vt(3) er by simp
      then have "dot (tl (fst e)) vt = hd (fst e) / ?a * dot (tl (fst p)) vt"
        using eliminate_dot[OF sh(1) le vt(1)] by simp
      then show ?thesis using le a by (simp add: dot_hd_tl)
    qed
    then show ?thesis using vt(1,2) by (intro exI[of _ ?v]) simp
  qed
qed

lemma shaped_zip:
  assumes "is_mat n n M" "is_mat n k B"
  shows "shaped n k (zip (rows M) (rows B))" "length (zip (rows M) (rows B)) = n"
proof -
  have l: "length (rows M) = n" "length (rows B) = n" using assms by (simp_all add: is_mat_length)
  have "length (rows M ! i) = n \<and> length (rows B ! i) = k" if "i < n" for i
    using assms that by (simp add: is_mat_row)
  then show "shaped n k (zip (rows M) (rows B))" using l by (simp add: shaped_def list_all_length)
  show "length (zip (rows M) (rows B)) = n" using l by simp
qed

lemma zip_kernel:
  assumes "length xs = length ys"
  shows "(\<forall>e\<in>set (zip xs ys). dot (fst e) v = 0) \<longleftrightarrow> map (\<lambda>r. dot r v) xs = replicate (length xs) 0"
proof -
  have "(\<forall>e\<in>set (zip xs ys). dot (fst e) v = 0) \<longleftrightarrow> (\<forall>r\<in>set (map fst (zip xs ys)). dot r v = 0)"
    by auto
  also have "\<dots> \<longleftrightarrow> (\<forall>r\<in>set xs. dot r v = 0)" using assms by (simp add: map_fst_zip)
  also have "\<dots> \<longleftrightarrow> (\<forall>i<length xs. dot (xs ! i) v = 0)"
    by (rule all_set_conv_all_nth)
  also have "\<dots> \<longleftrightarrow> map (\<lambda>r. dot r v) xs = replicate (length xs) 0"
    by (simp add: list_eq_iff_nth_eq)
  finally show ?thesis .
qed

lemma matvec_kernel:
  assumes "is_mat n n M" "is_mat n k B" "length v = n"
  shows "matvec M v = Inr (replicate n 0) \<longleftrightarrow> (\<forall>e\<in>set (zip (rows M) (rows B)). dot (fst e) v = 0)"
proof -
  have l: "length (rows M) = n" "length (rows B) = n" using assms by (simp_all add: is_mat_length)
  show ?thesis using zip_kernel[of "rows M" "rows B" v] l assms by (simp add: matvec_ok)
qed

lemma mat_eqI: "nrows P = nrows Q \<Longrightarrow> ncols P = ncols Q \<Longrightarrow> rows P = rows Q \<Longrightarrow> (P::mat) = Q"
  by simp

lemma gauss_nonsingular:
  assumes M: "is_mat n n M" and B: "is_mat n k B" and ns: "\<not> singular M"
  shows "\<exists>X. gauss n k (zip (rows M) (rows B)) = Some X"
proof (cases "gauss n k (zip (rows M) (rows B))")
  case None
  have sq: "nrows M = n" "ncols M = n" using M by (simp_all add: is_mat_def)
  obtain v where v: "length v = n" "v \<noteq> replicate n 0"
      "\<forall>e\<in>set (zip (rows M) (rows B)). dot (fst e) v = 0"
    using gauss_None_kernel[OF None shaped_zip(1)[OF M B]] by blast
  have "matvec M v = Inr (replicate n 0)" using matvec_kernel[OF M B v(1)] v(3) by blast
  then have "singular M" using v(1,2) sq by (auto simp: singular_def)
  then show ?thesis using ns by simp
next
  case (Some X)
  then show ?thesis by blast
qed

lemma solve_total:
  assumes M: "is_mat n n M" and B: "is_mat n k B" and ns: "\<not> singular M"
  shows "\<exists>W. solve on_singular M B = Inr W"
proof -
  have sq: "nrows M = n" "ncols M = n" "nrows B = n" "ncols B = k"
    using M B by (simp_all add: is_mat_def)
  obtain X where g: "gauss n k (zip (rows M) (rows B)) = Some X"
    using gauss_nonsingular[OF M B ns] by blast
  show ?thesis by (simp add: solve_def sq g)
qed

lemma solve_sound:
  assumes M: "is_mat n n M" and B: "is_mat n k B" and ns: "\<not> singular M"
    and s: "solve on_singular M B = Inr W"
  shows "is_mat n k W" "matmul M W = Inr B"
proof -
  have sq: "nrows M = n" "ncols M = n" "nrows B = n" "ncols B = k"
    using M B by (simp_all add: is_mat_def)
  obtain X where g: "gauss n k (zip (rows M) (rows B)) = Some X"
    using gauss_nonsingular[OF M B ns] by blast
  have W: "W = \<lparr>nrows = n, ncols = k, rows = X\<rparr>"
    using s by (simp add: solve_def sq g)
  note gs = gauss_sound[OF g shaped_zip[OF M B]]
  show Wm: "is_mat n k W" using gs by (simp add: W is_mat_def wf_mat_def)
  have l: "length (rows M) = n" "length (rows B) = n" using M B by (simp_all add: is_mat_length)
  have "vm k (rows M ! i) X = rows B ! i" if i: "i < n" for i
  proof (rule nth_equalityI)
    show "length (vm k (rows M ! i) X) = length (rows B ! i)" using B i by (simp add: vm_def is_mat_row)
  next
    fix j assume "j < length (vm k (rows M ! i) X)"
    then have j: "j < k" by (simp add: vm_def)
    have "(rows M ! i, rows B ! i) \<in> set (zip (rows M) (rows B))"
      using i l by (auto simp: in_set_zip)
    then show "vm k (rows M ! i) X ! j = rows B ! i ! j" using gs j by (auto simp: vm_def)
  qed
  then have "map (\<lambda>r. vm k r X) (rows M) = rows B"
    using l by (auto simp: list_eq_iff_nth_eq)
  then show "matmul M W = Inr B" using sq by (simp add: matmul_def W)
qed

lemma set_row_is_mat:
  assumes "set_row M i v = Inr M'" "is_mat r c M"
  shows "is_mat r c M'"
proof -
  have c: "ncols M = c" using assms(2) by (simp add: is_mat_def)
  consider "M' = M\<lparr>rows := (rows M)[i := v]\<rparr>" "length v = c"
    | "M' = M\<lparr>rows := (rows M)[i := replicate c (v ! 0)]\<rparr>"
    using assms(1) c by (auto simp: set_row_def split: if_splits)
  then show ?thesis
  proof cases
    case 1
    then show ?thesis using is_mat_update[OF assms(2), of v i] by simp
  next
    case 2
    then show ?thesis using is_mat_update[OF assms(2), of "replicate c (v ! 0)" i] by simp
  qed
qed

lemma collect_loop_is_mat:
  "collect_loop Z A C zeta alpha ts X = Inr X' \<Longrightarrow> is_mat r c X \<Longrightarrow> is_mat r c X'"
proof (induction ts arbitrary: X)
  case Nil
  then show ?case by simp
next
  case (Cons t ts)
  from Cons.prems(1) obtain v X1 where
    s: "set_row X t v = Inr X1" "collect_loop Z A C zeta alpha ts X1 = Inr X'"
    by (auto simp: ebind_eq_Inr)
  show ?case using Cons.IH[OF s(2) set_row_is_mat[OF s(1) Cons.prems(2)]] .
qed

lemma esn_collect_is_mat:
  assumes "esn_collect Z A C zeta alpha = Inr X"
  shows "is_mat (nrows Z) (nrows A) X" "2 \<le> nrows Z"
proof -
  obtain v X0 where s: "collect_first Z C zeta alpha = Inr v"
      "set_row (zeros (nrows Z) (nrows A)) 0 v = Inr X0"
      "collect_loop Z A C zeta alpha [1..<nrows Z] X0 = Inr X"
    using assms by (auto simp: esn_collect_def Let_def ebind_eq_Inr)
  show "is_mat (nrows Z) (nrows A) X"
    using collect_loop_is_mat[OF s(3) set_row_is_mat[OF s(2) is_mat_zeros]] .
  show "2 \<le> nrows Z"
    using s(1) by (auto simp: collect_first_def row_at_def ebind_eq_Inr split: if_splits)
qed

lemma rows_transpose_nth: "i < ncols M \<Longrightarrow> rows (transpose_mat M) ! i = col (rows M) i"
  by (simp add: transpose_mat_def)

lemma matmul_entries:
  assumes "is_mat r k A" "is_mat k c B"
  shows "\<exists>P. matmul A B = Inr P \<and> is_mat r c P \<and>
     (\<forall>i<r. \<forall>j<c. rows P ! i ! j = dot (rows A ! i) (col (rows B) j))"
proof -
  obtain P where P: "matmul A B = Inr P" "is_mat r c P"
      "rows P = map (\<lambda>rw. vm c rw (rows B)) (rows A)"
    using is_mat_matmul[OF assms] by blast
  have "length (rows A) = r" using assms(1) by (simp add: is_mat_length)
  then have "\<forall>i<r. \<forall>j<c. rows P ! i ! j = dot (rows A ! i) (col (rows B) j)"
    by (simp add: P(3) vm_nth)
  then show ?thesis using P(1,2) by blast
qed

lemma is_mat_eye: "is_mat k k (eye k)"
  by (simp add: is_mat_def wf_mat_def eye_def list_all_iff)

lemma is_mat_msmul: "is_mat r c M \<Longrightarrow> is_mat r c (msmul a M)"
  by (simp add: is_mat_def wf_mat_def msmul_def list_all_iff)

lemma msmul_eye_entry:
  "i < k \<Longrightarrow> j < k \<Longrightarrow> rows (msmul a (eye k)) ! i ! j = a * (if i = j then 1 else 0)"
  by (simp add: msmul_def eye_def)

lemma ridge_lhs_ok:
  assumes X: "is_mat T K X"
  shows "\<exists>M. ridge_lhs X L = Inr M \<and> is_mat K K M \<and>
     (\<forall>i<K. \<forall>j<K. rows M ! i ! j
        = dot (col (rows X) i) (col (rows X) j) + real T * L * (if i = j then 1 else 0))"
proof -
  have sh: "nrows X = T" "ncols X = K" using X by (simp_all add: is_mat_def)
  obtain G where G: "matmul (transpose_mat X) X = Inr G" "is_mat K K G"
      "\<forall>i<K. \<forall>j<K. rows G ! i ! j = dot (rows (transpose_mat X) ! i) (col (rows X) j)"
    using matmul_entries[OF is_mat_transpose[OF X] X] by blast
  let ?P = "msmul (real T * L) (eye K)"
  have P: "is_mat K K ?P" by (rule is_mat_msmul[OF is_mat_eye])
  obtain M where M: "madd G ?P = Inr M" "is_mat K K M"
      "\<forall>i<K. rows M ! i = map (\<lambda>j. rows G ! i ! j + rows ?P ! i ! j) [0..<K]"
    using is_mat_mzip[OF G(2) P, of "(+)"] by (auto simp: madd_def)
  have run: "ridge_lhs X L = Inr M" by (simp add: ridge_lhs_def sh G(1) M(1))
  have "\<forall>i<K. \<forall>j<K. rows M ! i ! j
        = dot (col (rows X) i) (col (rows X) j) + real T * L * (if i = j then 1 else 0)"
    using M(3) G(3) sh by (simp add: rows_transpose_nth msmul_eye_entry)
  then show ?thesis using run M(2) by blast
qed

lemma ridge_rhs_ok:
  assumes X: "is_mat T K X" and Y: "is_mat T d Y"
  shows "\<exists>B. ridge_rhs X Y = Inr B \<and> is_mat K d B \<and>
     (\<forall>i<K. \<forall>j<d. rows B ! i ! j = dot (col (rows X) i) (col (rows Y) j))"
proof -
  have sh: "ncols X = K" using X by (simp add: is_mat_def)
  obtain B where B: "matmul (transpose_mat X) Y = Inr B" "is_mat K d B"
      "\<forall>i<K. \<forall>j<d. rows B ! i ! j = dot (rows (transpose_mat X) ! i) (col (rows Y) j)"
    using matmul_entries[OF is_mat_transpose[OF X] Y] by blast
  have "\<forall>i<K. \<forall>j<d. rows B ! i ! j = dot (col (rows X) i) (col (rows Y) j)"
    using B(3) sh by (simp add: rows_transpose_nth)
  then show ?thesis using B(1,2) by (auto simp: ridge_rhs_def)
qed

lemma esn_fit_ok:
  assumes S: "esn_collect Z A C zeta alpha = Inr S" and Y: "is_mat (nrows S) d Y"
    and M: "ridge_lhs S L = Inr M" and ns: "\<not> singular M"
  shows "\<exists>B W Y_fit E. ridge_rhs S Y = Inr B \<and> is_mat (ncols S) d B \<and> solve on_singular M B = Inr W \<and>
      esn_fit on_singular Y Z L A C zeta alpha = Inr (W, S, Y_fit, E) \<and>
      is_mat (ncols S) d W \<and> matmul M W = Inr B \<and> matmul S W = Inr Y_fit \<and> msub Y Y_fit = Inr E \<and>
      (\<forall>t<nrows S. \<forall>j<d. rows Y_fit ! t ! j = dot (rows S ! t) (col (rows W) j)) \<and>
      (\<forall>t<nrows S. \<forall>j<d. rows E ! t ! j = rows Y ! t ! j - rows Y_fit ! t ! j)"
proof -
  have Sm: "is_mat (nrows S) (ncols S) S"
    using esn_collect_is_mat(1)[OF S] by (simp add: is_mat_def)
  obtain M' where M': "ridge_lhs S L = Inr M'" "is_mat (ncols S) (ncols S) M'"
    using ridge_lhs_ok[OF Sm, of L] by blast
  have Mm: "is_mat (ncols S) (ncols S) M" using M M' by simp
  obtain B where B: "ridge_rhs S Y = Inr B" "is_mat (ncols S) d B"
    using ridge_rhs_ok[OF Sm Y] by blast
  obtain W where W: "solve on_singular M B = Inr W" using solve_total[OF Mm B(2) ns] by blast
  note Ws = solve_sound[OF Mm B(2) ns W]
  obtain Yf where Yf: "matmul S W = Inr Yf" "is_mat (nrows S) d Yf"
      "\<forall>t<nrows S. \<forall>j<d. rows Yf ! t ! j = dot (rows S ! t) (col (rows W) j)"
    using matmul_entries[OF Sm Ws(1)] by blast
  obtain E where E: "msub Y Yf = Inr E"
      "\<forall>t<nrows S. rows E ! t = map (\<lambda>j. rows Y ! t ! j - rows Yf ! t ! j) [0..<d]"
    using is_mat_mzip[OF Y Yf(2), of "(-)"] by (auto simp: msub_def)
  have run: "esn_fit on_singular Y Z L A C zeta alpha = Inr (W, S, Yf, E)"
    by (simp add: esn_fit_def S M B(1) W Yf(1) E(1))
  have Ee: "\<forall>t<nrows S. \<forall>j<d. rows E ! t ! j = rows Y ! t ! j - rows Yf ! t ! j"
    using E(2) by simp
  show ?thesis
    by (intro exI[of _ B] exI[of _ W] exI[of _ Yf] exI[of _ E] conjI
        B W run Ws Yf(1) E(1) Yf(3) Ee)
qed

text \<open>With a positive penalty the matrix handed to the solver is positive definite, hence
  not singular.\<close>

lemma ridge_lhs_nonsingular:
  assumes X: "is_mat T K X" and M: "ridge_lhs X L = Inr M" and c: "0 < real T * L"
  shows "\<not> singular M"
proof
  assume "singular M"
  obtain M' where M': "ridge_lhs X L = Inr M'" "is_mat K K M'"
      "\<forall>i<K. \<forall>j<K. rows M' ! i ! j
        = dot (col (rows X) i) (col (rows X) j) + real T * L * (if i = j then 1 else 0)"
    using ridge_lhs_ok[OF X, of L] by blast
  have MM: "M' = M" using M M'(1) by simp
  note Mm = M'(2)[unfolded MM] and ent = M'(3)[unfolded MM]
  from \<open>singular M\<close> obtain v where v: "length v = K" "v \<noteq> replicate K 0"
      "matvec M v = Inr (replicate K 0)"
    using Mm by (auto simp: singular_def is_mat_def)
  have lX: "length (rows X) = T" using X by (simp add: is_mat_length)
  have lM: "length (rows M) = K" using Mm by (simp add: is_mat_length)
  define c where "c = real T * L"
  define w where "w t = (\<Sum>i<K. rows X ! t ! i * v ! i)" for t
  have g: "dot (col (rows X) i) (col (rows X) j) = (\<Sum>t<T. rows X ! t ! i * rows X ! t ! j)" for i j
    using lX by (simp add: dot_sum col_nth)
  have row: "dot (rows M ! i) v = (\<Sum>j<K. (\<Sum>t<T. rows X ! t ! i * rows X ! t ! j) * v ! j) + c * v ! i"
    if i: "i < K" for i
  proof -
    have "length (rows M ! i) = K" using Mm i by (simp add: is_mat_row)
    then have "dot (rows M ! i) v
        = (\<Sum>j<K. ((\<Sum>t<T. rows X ! t ! i * rows X ! t ! j) + c * (if i = j then 1 else 0)) * v ! j)"
      using v(1) ent i by (simp add: dot_sum g c_def)
    also have "\<dots> = (\<Sum>j<K. (\<Sum>t<T. rows X ! t ! i * rows X ! t ! j) * v ! j)
        + (\<Sum>j<K. c * (if i = j then 1 else 0) * v ! j)"
      by (simp add: algebra_simps sum.distrib)
    also have "(\<Sum>j<K. c * (if i = j then 1 else 0) * v ! j) = (\<Sum>j<K. if j = i then c * v ! j else 0)"
      by (intro sum.cong) auto
    also have "\<dots> = c * v ! i" using i by (simp add: sum.delta)
    finally show ?thesis .
  qed
  have zero: "dot (rows M ! i) v = 0" if "i < K" for i
  proof -
    have "map (\<lambda>r. dot r v) (rows M) = replicate K 0"
      using v(3) matvec_ok[OF Mm v(1)] by simp
    then have "map (\<lambda>r. dot r v) (rows M) ! i = replicate K 0 ! i" by simp
    then show ?thesis using that lM by simp
  qed
  have "0 = (\<Sum>i<K. v ! i * dot (rows M ! i) v)" using zero by simp
  also have "\<dots> = (\<Sum>i<K. v ! i * ((\<Sum>j<K. (\<Sum>t<T. rows X ! t ! i * rows X ! t ! j) * v ! j) + c * v ! i))"
    using row by simp
  also have "\<dots> = (\<Sum>i<K. \<Sum>j<K. \<Sum>t<T. (rows X ! t ! i * v ! i) * (rows X ! t ! j * v ! j))
      + c * (\<Sum>i<K. (v ! i)\<^sup>2)"
    by (simp add: algebra_simps sum.distrib sum_distrib_left sum_distrib_right power2_eq_square)
  also have "(\<Sum>i<K. \<Sum>j<K. \<Sum>t<T. (rows X ! t ! i * v ! i) * (rows X ! t ! j * v ! j))
      = (\<Sum>i<K. \<Sum>t<T. \<Sum>j<K. (rows X ! t ! i * v ! i) * (rows X ! t ! j * v ! j))"
    by (intro sum.cong refl sum.swap)
  also have "\<dots> = (\<Sum>t<T. \<Sum>i<K. \<Sum>j<K. (rows X ! t ! i * v ! i) * (rows X ! t ! j * v ! j))"
    by (rule sum.swap)
  also have "\<dots> = (\<Sum>t<T. (w t)\<^sup>2)"
    by (simp add: w_def power2_eq_square sum_product)
  finally have q: "(\<Sum>t<T. (w t)\<^sup>2) + c * (\<Sum>i<K. (v ! i)\<^sup>2) = 0" by simp
  have "0 \<le> (\<Sum>t<T. (w t)\<^sup>2)" by (intro sum_nonneg) simp
  moreover have s0: "0 \<le> (\<Sum>i<K. (v ! i)\<^sup>2)" by (intro sum_nonneg) simp
  moreover have "0 < c" using c by (simp add: c_def)
  ultimately have "(\<Sum>i<K. (v ! i)\<^sup>2) = 0"
    using q by (smt (verit) mult_nonneg_nonneg mult_eq_0_iff)
  then have "\<forall>i<K. v ! i = 0"
    by (subst (asm) sum_nonneg_eq_0_iff) auto
  then have "v = replicate K 0" using v(1) by (simp add: list_eq_iff_nth_eq)
  then show False using v(2) by simp
qed

lemma dot_diff:
  "length u = length a \<Longrightarrow> length a = length b \<Longrightarrow>
   dot u (map2 (-) a b) = dot u a - dot u b"
proof (induction u a b rule: list_induct3)
  case Nil
  then show ?case by simp
next
  case (Cons x xs y ys z zs)
  then show ?case by (simp add: algebra_simps)
qed

lemma solution_unique:
  assumes M: "is_mat n n M" and ns: "\<not> singular M"
    and W: "is_mat n k W" "matmul M W = Inr B"
    and W': "is_mat n k W'" "matmul M W' = Inr B"
  shows "W' = W"
proof -
  have lW: "length (rows W) = n" "length (rows W') = n"
    using W(1) W'(1) by (simp_all add: is_mat_length)
  have lM: "length (rows M) = n" using M by (simp add: is_mat_length)
  have sh: "ncols M = n" "nrows M = n" "nrows W = n" "nrows W' = n" "ncols W = k" "ncols W' = k"
    using M W(1) W'(1) by (simp_all add: is_mat_def)
  have rB: "rows B = map (\<lambda>r. vm k r (rows W)) (rows M)" "rows B = map (\<lambda>r. vm k r (rows W')) (rows M)"
    using W(2) W'(2) sh by (auto simp: matmul_def)
  have colz: "map2 (-) (col (rows W) j) (col (rows W') j) = replicate n 0" if j: "j < k" for j
  proof -
    let ?v = "map2 (-) (col (rows W) j) (col (rows W') j)"
    have lv: "length ?v = n" using lW by simp
    have "dot (rows M ! i) ?v = 0" if i: "i < n" for i
    proof -
      have li: "length (rows M ! i) = n" using M i by (simp add: is_mat_row)
      have "vm k (rows M ! i) (rows W) ! j = vm k (rows M ! i) (rows W') ! j"
        using rB i lM by (metis nth_map)
      then have "dot (rows M ! i) (col (rows W) j) = dot (rows M ! i) (col (rows W') j)"
        using j by (simp add: vm_nth)
      then show ?thesis using li lW by (simp add: dot_diff)
    qed
    then have "map (\<lambda>r. dot r ?v) (rows M) = replicate n 0"
      using lM by (simp add: list_eq_iff_nth_eq)
    then have mv: "matvec M ?v = Inr (replicate n 0)" using matvec_ok[OF M lv] by simp
    from ns have "length ?v = n \<Longrightarrow> matvec M ?v = Inr (replicate n 0) \<Longrightarrow> ?v = replicate n 0"
      unfolding singular_def sh by blast
    then show ?thesis using lv mv .
  qed
  have "rows W' ! i = rows W ! i" if i: "i < n" for i
  proof (rule nth_equalityI)
    show "length (rows W' ! i) = length (rows W ! i)" using W(1) W'(1) i by (simp add: is_mat_row)
  next
    fix j assume "j < length (rows W' ! i)"
    then have j: "j < k" using W'(1) i by (simp add: is_mat_row)
    have "map2 (-) (col (rows W) j) (col (rows W') j) ! i = replicate n 0 ! i"
      using colz[OF j] by simp
    then show "rows W' ! i ! j = rows W ! i ! j" using i lW by (simp add: col_nth)
  qed
  then have "rows W' = rows W" using lW by (simp add: list_eq_iff_nth_eq)
  then show ?thesis using sh by (intro mat_eqI) simp_all
qed

text \<open>
  Claim C3. Let \<open>S\<close> be the collected state matrix (\<open>T\<close> rows), \<open>Y\<close> a target matrix of
  \<open>T\<close> rows, and \<open>M\<close> the matrix the code passes to \<^verbatim>\<open>np.linalg.solve\<close>. Then
  \<open>M = S\<^sup>T S + T * L * I\<close>, the penalty scaled by the number of rows; and when \<open>M\<close> is not
  singular the fitter returns weights \<open>W\<close> with \<open>M W = S\<^sup>T Y\<close>, the only such matrix,
  fitted values \<open>S @ W\<close> and residuals \<open>Y - S @ W\<close>.
\<close>

theorem esn_fit_ridge_solution:
  assumes "esn_collect Z A C zeta alpha = Inr S" and "is_mat (nrows S) d Y"
    and "ridge_lhs S L = Inr M" and "\<not> singular M"
  shows "(\<forall>i<ncols S. \<forall>j<ncols S. rows M ! i ! j
            = dot (col (rows S) i) (col (rows S) j) + real (nrows S) * L * (if i = j then 1 else 0))
     \<and> (\<exists>B W Y_fit E. ridge_rhs S Y = Inr B
          \<and> (\<forall>i<ncols S. \<forall>j<d. rows B ! i ! j = dot (col (rows S) i) (col (rows Y) j))
          \<and> esn_fit on_singular Y Z L A C zeta alpha = Inr (W, S, Y_fit, E)
          \<and> is_mat (ncols S) d W \<and> matmul M W = Inr B
          \<and> (\<forall>W'. is_mat (ncols S) d W' \<and> matmul M W' = Inr B \<longrightarrow> W' = W)
          \<and> matmul S W = Inr Y_fit \<and> msub Y Y_fit = Inr E
          \<and> (\<forall>t<nrows S. \<forall>j<d. rows Y_fit ! t ! j = dot (rows S ! t) (col (rows W) j))
          \<and> (\<forall>t<nrows S. \<forall>j<d. rows E ! t ! j = rows Y ! t ! j - rows Y_fit ! t ! j))"
proof -
  have Sm: "is_mat (nrows S) (ncols S) S"
    using esn_collect_is_mat(1)[OF assms(1)] by (simp add: is_mat_def)
  obtain M' where M': "ridge_lhs S L = Inr M'" "is_mat (ncols S) (ncols S) M'"
      "\<forall>i<ncols S. \<forall>j<ncols S. rows M' ! i ! j
         = dot (col (rows S) i) (col (rows S) j) + real (nrows S) * L * (if i = j then 1 else 0)"
    using ridge_lhs_ok[OF Sm, of L] by blast
  have MM: "M' = M" using assms(3) M'(1) by simp
  obtain B' where B': "ridge_rhs S Y = Inr B'"
      "\<forall>i<ncols S. \<forall>j<d. rows B' ! i ! j = dot (col (rows S) i) (col (rows Y) j)"
    using ridge_rhs_ok[OF Sm assms(2)] by blast
  obtain B W Y_fit E where r: "ridge_rhs S Y = Inr B" "is_mat (ncols S) d B"
      "esn_fit on_singular Y Z L A C zeta alpha = Inr (W, S, Y_fit, E)"
      "is_mat (ncols S) d W" "matmul M W = Inr B" "matmul S W = Inr Y_fit" "msub Y Y_fit = Inr E"
      "\<forall>t<nrows S. \<forall>j<d. rows Y_fit ! t ! j = dot (rows S ! t) (col (rows W) j)"
      "\<forall>t<nrows S. \<forall>j<d. rows E ! t ! j = rows Y ! t ! j - rows Y_fit ! t ! j"
    using esn_fit_ok[OF assms] by blast
  have BB: "B' = B" using r(1) B'(1) by simp
  have uniq: "\<forall>W'. is_mat (ncols S) d W' \<and> matmul M W' = Inr B \<longrightarrow> W' = W"
    using solution_unique[OF M'(2)[unfolded MM] assms(4) r(4,5)] by blast
  have ex: "\<exists>B W Y_fit E. ridge_rhs S Y = Inr B
          \<and> (\<forall>i<ncols S. \<forall>j<d. rows B ! i ! j = dot (col (rows S) i) (col (rows Y) j))
          \<and> esn_fit on_singular Y Z L A C zeta alpha = Inr (W, S, Y_fit, E)
          \<and> is_mat (ncols S) d W \<and> matmul M W = Inr B
          \<and> (\<forall>W'. is_mat (ncols S) d W' \<and> matmul M W' = Inr B \<longrightarrow> W' = W)
          \<and> matmul S W = Inr Y_fit \<and> msub Y Y_fit = Inr E
          \<and> (\<forall>t<nrows S. \<forall>j<d. rows Y_fit ! t ! j = dot (rows S ! t) (col (rows W) j))
          \<and> (\<forall>t<nrows S. \<forall>j<d. rows E ! t ! j = rows Y ! t ! j - rows Y_fit ! t ! j)"
    by (intro exI[of _ B] exI[of _ W] exI[of _ Y_fit] exI[of _ E] conjI
        r(1) B'(2)[unfolded BB] r(3) r(4) r(5) uniq r(6) r(7) r(8) r(9))
  show ?thesis using M'(3)[unfolded MM] ex by (rule conjI)
qed

lemma esn_collect_two_rows_alpha0:
  "esn_collect \<lparr>nrows = 2, ncols = 1, rows = [[0], [1]]\<rparr> \<lparr>nrows = 1, ncols = 1, rows = [[0]]\<rparr>
       \<lparr>nrows = 1, ncols = 1, rows = [[1]]\<rparr> [0] 0
     = Inr \<lparr>nrows = 2, ncols = 1, rows = [[tanh 1], [tanh 1]]\<rparr>"
  using esn_collect_two_rows[of 0] by simp

lemma gram_2x1:
  "matmul (transpose_mat \<lparr>nrows = 2, ncols = 1, rows = [[s1], [s2]]\<rparr>)
      \<lparr>nrows = 2, ncols = 1, rows = [[s1], [s2]]\<rparr>
     = Inr \<lparr>nrows = 1, ncols = 1, rows = [[s1 * s1 + s2 * s2]]\<rparr>"
  by (simp add: matmul_def transpose_mat_def vm_def col_def)

lemma ridge_lhs_2x1:
  "ridge_lhs \<lparr>nrows = 2, ncols = 1, rows = [[s1], [s2]]\<rparr> L
     = Inr \<lparr>nrows = 1, ncols = 1, rows = [[s1 * s1 + s2 * s2 + 2 * L]]\<rparr>"
  using gram_2x1[of s1 s2]
  by (simp add: ridge_lhs_def madd_def mzip_def bcast_def pick_def msmul_def eye_def)

lemma singular_1x1: "singular \<lparr>nrows = 1, ncols = 1, rows = [[m]]\<rparr> \<longleftrightarrow> m = 0"
proof
  assume "singular \<lparr>nrows = 1, ncols = 1, rows = [[m]]\<rparr>"
  then obtain v where v: "length v = 1" "v \<noteq> [0]"
      "matvec \<lparr>nrows = 1, ncols = 1, rows = [[m]]\<rparr> v = Inr [0]"
    by (auto simp: singular_def)
  obtain x where x: "v = [x]" using v(1) by (cases v) auto
  show "m = 0" using v(2,3) by (auto simp: x matvec_def)
next
  assume "m = 0"
  then show "singular \<lparr>nrows = 1, ncols = 1, rows = [[m]]\<rparr>"
    by (auto simp: singular_def matvec_def intro!: exI[of _ "[1]"])
qed

theorem esn_fit_ridge_solution_witness:
  "esn_collect \<lparr>nrows = 2, ncols = 1, rows = [[0], [1]]\<rparr> \<lparr>nrows = 1, ncols = 1, rows = [[0]]\<rparr>
       \<lparr>nrows = 1, ncols = 1, rows = [[1]]\<rparr> [0] 0
     = Inr \<lparr>nrows = 2, ncols = 1, rows = [[tanh 1], [tanh 1]]\<rparr>
   \<and> is_mat 2 1 \<lparr>nrows = 2, ncols = 1, rows = [[1], [2]]\<rparr>
   \<and> ridge_lhs \<lparr>nrows = 2, ncols = 1, rows = [[tanh 1], [tanh 1]]\<rparr> 1
     = Inr \<lparr>nrows = 1, ncols = 1, rows = [[tanh 1 * tanh 1 + tanh 1 * tanh 1 + 2 * 1]]\<rparr>
   \<and> \<not> singular \<lparr>nrows = 1, ncols = 1, rows = [[tanh 1 * tanh 1 + tanh 1 * tanh 1 + 2 * 1]]\<rparr>
   \<and> (\<exists>B W Y_fit E.
        esn_fit (\<lambda>M B. Inl LinAlgError) \<lparr>nrows = 2, ncols = 1, rows = [[1], [2]]\<rparr> \<lparr>nrows = 2, ncols = 1, rows = [[0], [1]]\<rparr> 1
          \<lparr>nrows = 1, ncols = 1, rows = [[0]]\<rparr> \<lparr>nrows = 1, ncols = 1, rows = [[1]]\<rparr> [0] 0
          = Inr (W, \<lparr>nrows = 2, ncols = 1, rows = [[tanh 1], [tanh 1]]\<rparr>, Y_fit, E)
        \<and> matmul \<lparr>nrows = 1, ncols = 1, rows = [[tanh 1 * tanh 1 + tanh 1 * tanh 1 + 2 * 1]]\<rparr> W = Inr B
        \<and> matmul \<lparr>nrows = 2, ncols = 1, rows = [[tanh 1], [tanh 1]]\<rparr> W = Inr Y_fit
        \<and> msub \<lparr>nrows = 2, ncols = 1, rows = [[1], [2]]\<rparr> Y_fit = Inr E)"
proof -
  note e = esn_collect_two_rows_alpha0
  have Y: "is_mat (nrows \<lparr>nrows = 2, ncols = 1, rows = [[tanh 1], [tanh 1]]\<rparr>) 1
      \<lparr>nrows = 2, ncols = 1, rows = [[1], [2]]\<rparr>"
    by (simp add: is_mat_lit)
  note l = ridge_lhs_2x1[of "tanh 1" "tanh 1" 1]
  have "tanh 1 * tanh 1 + tanh 1 * tanh 1 + 2 * 1 \<noteq> (0::real)"
    using zero_le_square[of "tanh (1::real)"] by linarith
  then have ns: "\<not> singular \<lparr>nrows = 1, ncols = 1, rows = [[tanh 1 * tanh 1 + tanh 1 * tanh 1 + 2 * 1]]\<rparr>"
    by (simp only: singular_1x1 not_False_eq_True)
  from esn_fit_ridge_solution[where on_singular = "\<lambda>M B. Inl LinAlgError", OF e Y l ns, THEN conjunct2]
  have ex: "\<exists>B W Y_fit E.
        esn_fit (\<lambda>M B. Inl LinAlgError) \<lparr>nrows = 2, ncols = 1, rows = [[1], [2]]\<rparr> \<lparr>nrows = 2, ncols = 1, rows = [[0], [1]]\<rparr> 1
          \<lparr>nrows = 1, ncols = 1, rows = [[0]]\<rparr> \<lparr>nrows = 1, ncols = 1, rows = [[1]]\<rparr> [0] 0
          = Inr (W, \<lparr>nrows = 2, ncols = 1, rows = [[tanh 1], [tanh 1]]\<rparr>, Y_fit, E)
        \<and> matmul \<lparr>nrows = 1, ncols = 1, rows = [[tanh 1 * tanh 1 + tanh 1 * tanh 1 + 2 * 1]]\<rparr> W = Inr B
        \<and> matmul \<lparr>nrows = 2, ncols = 1, rows = [[tanh 1], [tanh 1]]\<rparr> W = Inr Y_fit
        \<and> msub \<lparr>nrows = 2, ncols = 1, rows = [[1], [2]]\<rparr> Y_fit = Inr E"
    by (elim exE conjE) (intro exI conjI; assumption)
  have Y': "is_mat 2 1 \<lparr>nrows = 2, ncols = 1, rows = [[1], [2]]\<rparr>" by (simp add: is_mat_lit)
  show ?thesis by (intro conjI e Y' l ns ex)
qed

section \<open>Properties of the reservoir normalisation\<close>

lemma dot_map_scale: "dot (map (\<lambda>x. x * a) r) v = dot r v * a"
proof (induction r arbitrary: v)
  case Nil
  then show ?case by simp
next
  case (Cons x r)
  then show ?case by (cases v) (simp_all add: algebra_simps)
qed

lemma dot_scale_both: "dot (map (\<lambda>x. a * x) w) (map (\<lambda>x. a * x) w) = a\<^sup>2 * dot w w"
  by (induction w) (simp_all add: algebra_simps power2_eq_square)

lemma vnorm_scale: "vnorm (map (\<lambda>x. a * x) w) = \<bar>a\<bar> * vnorm w"
  by (simp add: vnorm_def dot_scale_both real_sqrt_mult)

lemma dot_self_nonneg: "0 \<le> dot w w"
  by (induction w) simp_all

lemma vnorm_nonneg: "0 \<le> vnorm w"
  by (simp add: vnorm_def dot_self_nonneg)

lemma rescaled_rows:
  "rows (mscale (mdiv M s) t) = map (map (\<lambda>x. x * (t / s))) (rows M)"
  by (simp add: mscale_def mdiv_def)

lemma mv_rescaled: "mv (mscale (mdiv M s) t) v = map (\<lambda>x. (t / s) * x) (mv M v)"
  unfolding mv_def rescaled_rows map_map comp_def dot_map_scale
  by (simp add: mult.commute)

lemma unit_vector: "0 < c \<Longrightarrow> length (1 # replicate (c - 1) (0::real)) = c \<and> vnorm (1 # replicate (c - 1) 0) = 1"
  by (simp add: vnorm_def)

lemma entry_le_one:
  assumes "vnorm v = 1" "j < length v"
  shows "\<bar>v ! j\<bar> \<le> 1"
proof -
  have "dot v v = 1" using assms(1) by (simp add: vnorm_def)
  then have s: "(\<Sum>i<length v. v ! i * v ! i) = 1" by (simp add: dot_sum)
  have "v ! j * v ! j \<le> (\<Sum>i<length v. v ! i * v ! i)"
    using assms(2) by (intro member_le_sum) simp_all
  then have "(v ! j)\<^sup>2 \<le> 1" using s by (simp add: power2_eq_square)
  then show ?thesis using abs_le_square_iff[of "v ! j" 1] by simp
qed

lemma length_mv [simp]: "length (mv M v) = length (rows M)"
  by (simp add: mv_def)

lemma abs_dot_le:
  assumes "length u = length v" "vnorm v = 1"
  shows "\<bar>dot u v\<bar> \<le> (\<Sum>j<length u. \<bar>u ! j\<bar>)"
proof -
  have "\<bar>dot u v\<bar> = \<bar>\<Sum>j<length u. u ! j * v ! j\<bar>" using assms(1) by (simp add: dot_sum)
  also have "\<dots> \<le> (\<Sum>j<length u. \<bar>u ! j * v ! j\<bar>)" by (rule sum_abs)
  also have "\<dots> \<le> (\<Sum>j<length u. \<bar>u ! j\<bar>)"
  proof (rule sum_mono)
    fix j assume "j \<in> {..<length u}"
    then have "\<bar>v ! j\<bar> \<le> 1" using entry_le_one[OF assms(2)] assms(1) by simp
    then have "\<bar>u ! j\<bar> * \<bar>v ! j\<bar> \<le> \<bar>u ! j\<bar> * 1" by (intro mult_left_mono) simp_all
    then show "\<bar>u ! j * v ! j\<bar> \<le> \<bar>u ! j\<bar>" by (simp add: abs_mult)
  qed
  finally show ?thesis .
qed

lemma vnorm_mv_bound:
  assumes M: "is_mat r c M" and v: "length v = c" "vnorm v = 1"
  shows "vnorm (mv M v) \<le> sqrt (\<Sum>i<r. (\<Sum>j<c. \<bar>rows M ! i ! j\<bar>)\<^sup>2)"
proof -
  have lM: "length (rows M) = r" using M by (simp add: is_mat_length)
  have "dot (mv M v) (mv M v) = (\<Sum>i<r. (dot (rows M ! i) v)\<^sup>2)"
    using lM by (simp add: dot_sum mv_def power2_eq_square)
  also have "\<dots> \<le> (\<Sum>i<r. (\<Sum>j<c. \<bar>rows M ! i ! j\<bar>)\<^sup>2)"
  proof (rule sum_mono)
    fix i assume "i \<in> {..<r}"
    then have li: "length (rows M ! i) = c" using M by (simp add: is_mat_row)
    have "\<bar>dot (rows M ! i) v\<bar> \<le> (\<Sum>j<c. \<bar>rows M ! i ! j\<bar>)"
      using abs_dot_le[of "rows M ! i" v] li v by simp
    then have "\<bar>dot (rows M ! i) v\<bar> \<le> \<bar>\<Sum>j<c. \<bar>rows M ! i ! j\<bar>\<bar>" by simp
    then show "(dot (rows M ! i) v)\<^sup>2 \<le> (\<Sum>j<c. \<bar>rows M ! i ! j\<bar>)\<^sup>2"
      by (simp only: abs_le_square_iff)
  qed
  finally show ?thesis by (simp add: vnorm_def)
qed

lemma Sup_scale:
  fixes S :: "real set"
  assumes ne: "S \<noteq> {}" and bd: "bdd_above S" and a: "0 < a"
  shows "Sup ((\<lambda>x. a * x) ` S) = a * Sup S"
proof (rule antisym)
  show "Sup ((\<lambda>x. a * x) ` S) \<le> a * Sup S"
  proof (rule cSup_least)
    show "(\<lambda>x. a * x) ` S \<noteq> {}" using ne by simp
  next
    fix y assume "y \<in> (\<lambda>x. a * x) ` S"
    then obtain x where x: "x \<in> S" "y = a * x" by blast
    have "x \<le> Sup S" using cSup_upper[OF x(1) bd] .
    then show "y \<le> a * Sup S" using a x(2) by simp
  qed
next
  have bd': "bdd_above ((\<lambda>x. a * x) ` S)"
  proof (rule bdd_aboveI)
    fix y assume "y \<in> (\<lambda>x. a * x) ` S"
    then obtain x where x: "x \<in> S" "y = a * x" by blast
    have "x \<le> Sup S" using cSup_upper[OF x(1) bd] .
    then show "y \<le> a * Sup S" using a x(2) by simp
  qed
  have "Sup S \<le> Sup ((\<lambda>x. a * x) ` S) / a"
  proof (rule cSup_least[OF ne])
    fix x assume x: "x \<in> S"
    have "a * x \<le> Sup ((\<lambda>x. a * x) ` S)" using cSup_upper[OF imageI[OF x] bd'] .
    then show "x \<le> Sup ((\<lambda>x. a * x) ` S) / a" using a by (simp add: field_simps)
  qed
  then show "a * Sup S \<le> Sup ((\<lambda>x. a * x) ` S)" using a by (simp add: field_simps)
qed

lemma opnorm_set:
  assumes M: "is_mat r c M" and c: "0 < c"
  shows "{vnorm (mv M v) | v. length v = ncols M \<and> vnorm v = 1} \<noteq> {}"
    "bdd_above {vnorm (mv M v) | v. length v = ncols M \<and> vnorm v = 1}"
proof -
  have nc: "ncols M = c" using M by (simp add: is_mat_def)
  show "{vnorm (mv M v) | v. length v = ncols M \<and> vnorm v = 1} \<noteq> {}"
    using unit_vector[OF c] nc by blast
  show "bdd_above {vnorm (mv M v) | v. length v = ncols M \<and> vnorm v = 1}"
    using vnorm_mv_bound[OF M] nc by (intro bdd_aboveI) auto
qed

lemma opnorm2_nonneg:
  assumes M: "is_mat r c M" and c: "0 < c"
  shows "0 \<le> opnorm2 M"
proof -
  have nc: "ncols M = c" using M by (simp add: is_mat_def)
  let ?u = "1 # replicate (c - 1) (0::real)"
  have "vnorm (mv M ?u) \<in> {vnorm (mv M v) | v. length v = ncols M \<and> vnorm v = 1}"
    using unit_vector[OF c] nc by blast
  then have "vnorm (mv M ?u) \<le> opnorm2 M"
    unfolding opnorm2_def by (rule cSup_upper) (rule opnorm_set(2)[OF M c])
  then show ?thesis using vnorm_nonneg[of "mv M ?u"] by linarith
qed

lemma opnorm2_rescaled:
  assumes M: "is_mat r c M" and c: "0 < c" and a: "0 < t / s"
  shows "opnorm2 (mscale (mdiv M s) t) = t / s * opnorm2 M"
proof -
  let ?S = "{vnorm (mv M v) | v. length v = ncols M \<and> vnorm v = 1}"
  have nc: "ncols (mscale (mdiv M s) t) = ncols M" by (simp add: mscale_def mdiv_def)
  have "\<bar>t / s\<bar> = t / s" using a by (rule abs_of_pos)
  then have val: "vnorm (mv (mscale (mdiv M s) t) v) = t / s * vnorm (mv M v)" for v
    unfolding mv_rescaled vnorm_scale by (rule arg_cong2[OF _ refl])
  have "{vnorm (mv (mscale (mdiv M s) t) v) | v.
           length v = ncols (mscale (mdiv M s) t) \<and> vnorm v = 1}
      = {t / s * vnorm (mv M v) | v. length v = ncols M \<and> vnorm v = 1}"
    by (simp only: nc val)
  also have "\<dots> = (\<lambda>x. t / s * x) ` ?S" by blast
  finally show ?thesis
    unfolding opnorm2_def using Sup_scale[OF opnorm_set[OF M c] a] by simp
qed

lemma is_mat_rescaled: "is_mat r c M \<Longrightarrow> is_mat r c (mscale (mdiv M s) t)"
  by (simp add: is_mat_def wf_mat_def mscale_def mdiv_def list_all_iff)

lemma rescale_ok:
  assumes M: "is_mat r c M" and r: "0 < r" and c: "0 < c" and nz: "opnorm2 M \<noteq> 0" and t: "0 < t"
  shows "\<exists>M'. rescale M t = Inr M' \<and> is_mat r c M' \<and> opnorm2 M' = t \<and>
     (\<forall>i<r. \<forall>j<c. rows M' ! i ! j = rows M ! i ! j / opnorm2 M * t)"
proof -
  let ?M' = "mscale (mdiv M (opnorm2 M)) t"
  have sh: "nrows M = r" "ncols M = c" using M by (simp_all add: is_mat_def)
  have pos: "0 < opnorm2 M" using opnorm2_nonneg[OF M c] nz by simp
  then have a: "0 < t / opnorm2 M" using t by simp
  have run: "rescale M t = Inr ?M'" using sh r c nz by (simp add: rescale_def)
  have n: "opnorm2 ?M' = t" using opnorm2_rescaled[OF M c a] nz by simp
  have lM: "length (rows M) = r" using M by (simp add: is_mat_length)
  have "rows ?M' ! i ! j = rows M ! i ! j / opnorm2 M * t" if "i < r" "j < c" for i j
  proof -
    have "length (rows M ! i) = c" using M that by (simp add: is_mat_row)
    then show ?thesis using that lM by (simp add: mscale_def mdiv_def)
  qed
  then show ?thesis using run is_mat_rescaled[OF M] n by blast
qed

text \<open>
  Claim C7. For matrices \<open>A\<close> and \<open>C\<close> with at least one entry and a non-zero operator
  2-norm and positive targets \<open>rho\<close> and \<open>gamma\<close>, the normalisation returns
  \<open>(A / ||A||) * rho\<close> and \<open>(C / ||C||) * gamma\<close>, whose operator 2-norms are \<open>rho\<close> and
  \<open>gamma\<close>.
\<close>

theorem reservoir_rescale_norms:
  assumes "is_mat n n A" and "is_mat n m C" and "0 < n" and "0 < m"
    and "opnorm2 A \<noteq> 0" and "opnorm2 C \<noteq> 0" and "0 < rho" and "0 < gamma"
  shows "\<exists>A' C'. rescale A rho = Inr A' \<and> rescale C gamma = Inr C'
      \<and> opnorm2 A' = rho \<and> opnorm2 C' = gamma
      \<and> (\<forall>i<n. \<forall>j<n. rows A' ! i ! j = rows A ! i ! j / opnorm2 A * rho)
      \<and> (\<forall>i<n. \<forall>j<m. rows C' ! i ! j = rows C ! i ! j / opnorm2 C * gamma)"
proof -
  obtain A' where A': "rescale A rho = Inr A'" "opnorm2 A' = rho"
      "\<forall>i<n. \<forall>j<n. rows A' ! i ! j = rows A ! i ! j / opnorm2 A * rho"
    using rescale_ok[OF assms(1,3,3,5,7)] by blast
  obtain C' where C': "rescale C gamma = Inr C'" "opnorm2 C' = gamma"
      "\<forall>i<n. \<forall>j<m. rows C' ! i ! j = rows C ! i ! j / opnorm2 C * gamma"
    using rescale_ok[OF assms(2,3,4,6,8)] by blast
  show ?thesis
    by (intro exI[of _ A'] exI[of _ C'] conjI A' C')
qed

lemma opnorm2_1x1: "opnorm2 \<lparr>nrows = 1, ncols = 1, rows = [[a]]\<rparr> = \<bar>a\<bar>"
proof -
  let ?M = "\<lparr>nrows = 1, ncols = 1, rows = [[a]]\<rparr>"
  have "{vnorm (mv ?M v) | v. length v = ncols ?M \<and> vnorm v = 1} = {\<bar>a\<bar>}"
  proof (intro equalityI subsetI)
    fix y assume "y \<in> {vnorm (mv ?M v) | v. length v = ncols ?M \<and> vnorm v = 1}"
    then obtain v where v: "y = vnorm (mv ?M v)" "length v = 1" "vnorm v = 1" by auto
    obtain x where x: "v = [x]" using v(2) by (cases v) auto
    have "\<bar>x\<bar> = 1" using v(3) by (simp add: x vnorm_def)
    then have "y = \<bar>a\<bar>" using v(1) by (simp add: x vnorm_def mv_def abs_mult)
    then show "y \<in> {\<bar>a\<bar>}" by simp
  next
    fix y assume "y \<in> {\<bar>a\<bar>}"
    then have "y = vnorm (mv ?M [1])" by (simp add: vnorm_def mv_def)
    moreover have "length [1::real] = ncols ?M \<and> vnorm [1] = 1" by (simp add: vnorm_def)
    ultimately show "y \<in> {vnorm (mv ?M v) | v. length v = ncols ?M \<and> vnorm v = 1}" by blast
  qed
  then show ?thesis by (simp add: opnorm2_def)
qed

theorem reservoir_rescale_norms_witness:
  "is_mat 1 1 \<lparr>nrows = 1, ncols = 1, rows = [[2]]\<rparr>
   \<and> is_mat 1 1 \<lparr>nrows = 1, ncols = 1, rows = [[- 3]]\<rparr>
   \<and> (0::nat) < 1
   \<and> opnorm2 \<lparr>nrows = 1, ncols = 1, rows = [[2]]\<rparr> \<noteq> 0
   \<and> opnorm2 \<lparr>nrows = 1, ncols = 1, rows = [[- 3]]\<rparr> \<noteq> 0
   \<and> (0::real) < 1 / 2 \<and> (0::real) < 1
   \<and> (\<exists>A' C'. rescale \<lparr>nrows = 1, ncols = 1, rows = [[2]]\<rparr> (1 / 2) = Inr A'
         \<and> rescale \<lparr>nrows = 1, ncols = 1, rows = [[- 3]]\<rparr> 1 = Inr C'
         \<and> opnorm2 A' = 1 / 2 \<and> opnorm2 C' = 1)"
proof -
  have A: "is_mat 1 1 \<lparr>nrows = 1, ncols = 1, rows = [[2]]\<rparr>" by (simp add: is_mat_lit)
  have C: "is_mat 1 1 \<lparr>nrows = 1, ncols = 1, rows = [[- 3]]\<rparr>" by (simp add: is_mat_lit)
  have n: "(0::nat) < 1" by simp
  have nA: "opnorm2 \<lparr>nrows = 1, ncols = 1, rows = [[2]]\<rparr> \<noteq> 0" by (simp only: opnorm2_1x1; simp)
  have nC: "opnorm2 \<lparr>nrows = 1, ncols = 1, rows = [[- 3]]\<rparr> \<noteq> 0" by (simp only: opnorm2_1x1; simp)
  have r: "(0::real) < 1 / 2" and g: "(0::real) < 1" by simp_all
  have ex: "\<exists>A' C'. rescale \<lparr>nrows = 1, ncols = 1, rows = [[2]]\<rparr> (1 / 2) = Inr A'
         \<and> rescale \<lparr>nrows = 1, ncols = 1, rows = [[- 3]]\<rparr> 1 = Inr C'
         \<and> opnorm2 A' = 1 / 2 \<and> opnorm2 C' = 1"
    using reservoir_rescale_norms[OF A C n n nA nC r g]
    by (elim exE conjE) (intro exI conjI; assumption)
  show ?thesis by (intro conjI A C n nA nC r g ex)
qed

end
